theory Spec2Isabelle
  imports Complex_Main "HOL-Library.Word"
begin

section \<open>Doubles, errors and the log-space primitives\<close>

text \<open>
  A C++ \<^verbatim>\<open>double\<close> is the not-a-number value, one of the two infinities, or a finite
  number. The log-space code uses NaN as the out-of-band representation of probability
  zero and combines the other values with \<^verbatim>\<open>+\<close>, \<^verbatim>\<open>-\<close>, \<^verbatim>\<open>exp\<close> and \<^verbatim>\<open>log\<close>.
  The model keeps the range of IEEE 754 binary64: a result whose magnitude reaches
  \<open>2 ^ 1024 - 2 ^ 970\<close> is rounded to an infinity, and a positive result of \<^verbatim>\<open>exp\<close> at
  or below \<open>2 ^ - 1075\<close>, half of the least positive double, is rounded to zero. Inside
  that range a result is the real number itself: the rounding to 53 significant bits is
  not modelled, and neither is the sign of zero. \<open>Fin r\<close> stands for a finite double, so
  \<open>r\<close> lies strictly between the two overflow bounds; the operations keep their results
  there.
\<close>

datatype double = NaN | Fin real | PInf | MInf

definition overflow_bound :: real where
  "overflow_bound = 2 ^ 1024 - 2 ^ 970"

definition underflow_bound :: real where
  "underflow_bound = 1 / 2 ^ 1075"

definition to_double :: "real \<Rightarrow> double" where
  "to_double r =
     (if overflow_bound \<le> r then PInf
      else if r \<le> - overflow_bound then MInf
      else Fin r)"

text \<open>
  Every \<^verbatim>\<open>throw\<close> of the source, and every read outside a container, is a value of
  this type; a function that can fail returns \<open>error + 'a\<close> with \<open>Inl\<close> the error.
  \<open>OutOfRange\<close> and \<open>LengthError\<close> are the exceptions of the standard library,
  \<open>OutOfBounds\<close> names the vector that is read outside its bounds, and \<open>Unalignable\<close>
  and \<open>OtherFailure\<close> stand for what a decoder or a fitter may throw.
\<close>

datatype error =
    NegativeLog
  | DivideByZero
  | OutOfRange
  | LengthError
  | OutOfBounds string
  | DuplicateState
  | UnregisteredState
  | AlreadyFinalised
  | Unalignable
  | OtherFailure string

fun isnan :: "double \<Rightarrow> bool" where
  "isnan NaN = True"
| "isnan _ = False"

text \<open>The comparisons \<^verbatim>\<open>==\<close> and \<^verbatim>\<open>>\<close> on doubles are false as soon as one side is NaN.\<close>

fun deq :: "double \<Rightarrow> double \<Rightarrow> bool" where
  "deq (Fin a) (Fin b) = (a = b)"
| "deq PInf PInf = True"
| "deq MInf MInf = True"
| "deq _ _ = False"

fun dgt :: "double \<Rightarrow> double \<Rightarrow> bool" where
  "dgt (Fin a) (Fin b) = (b < a)"
| "dgt PInf (Fin b) = True"
| "dgt PInf MInf = True"
| "dgt (Fin a) MInf = True"
| "dgt _ _ = False"

fun dneg :: "double \<Rightarrow> double" where
  "dneg NaN = NaN"
| "dneg (Fin a) = Fin (- a)"
| "dneg PInf = MInf"
| "dneg MInf = PInf"

text \<open>
  \<^verbatim>\<open>x + y\<close>: the sum of two finite doubles can overflow; the sum of the two different
  infinities is NaN.
\<close>

fun dadd :: "double \<Rightarrow> double \<Rightarrow> double" where
  "dadd (Fin a) (Fin b) = to_double (a + b)"
| "dadd NaN _ = NaN"
| "dadd _ NaN = NaN"
| "dadd PInf MInf = NaN"
| "dadd MInf PInf = NaN"
| "dadd PInf _ = PInf"
| "dadd _ PInf = PInf"
| "dadd MInf _ = MInf"
| "dadd _ MInf = MInf"

text \<open>\<^verbatim>\<open>x - y\<close> is \<^verbatim>\<open>x + (-y)\<close>; the difference of two equal infinities is NaN.\<close>

definition dsub :: "double \<Rightarrow> double \<Rightarrow> double" where
  "dsub x y = dadd x (dneg y)"

text \<open>
  \<^verbatim>\<open>exp\<close> of the C library: it underflows to zero and overflows to plus infinity
  on finite arguments (\<^verbatim>\<open>exp(-1000.0)\<close> is \<open>0\<close>, \<^verbatim>\<open>exp(1000.0)\<close> is infinite).
\<close>

fun dexp :: "double \<Rightarrow> double" where
  "dexp (Fin a) =
     (if exp a \<le> underflow_bound then Fin 0
      else if overflow_bound \<le> exp a then PInf
      else Fin (exp a))"
| "dexp PInf = PInf"
| "dexp MInf = Fin 0"
| "dexp NaN = NaN"

text \<open>
  \<^verbatim>\<open>log\<close> of the C library. The logarithm of a positive finite double lies between
  \<open>-745\<close> and \<open>710\<close>, so it neither overflows nor underflows; \<^verbatim>\<open>log(0)\<close> is minus
  infinity and the logarithm of a negative number is NaN.
\<close>

fun dlog :: "double \<Rightarrow> double" where
  "dlog (Fin a) = (if 0 < a then Fin (ln a) else if a = 0 then MInf else NaN)"
| "dlog PInf = PInf"
| "dlog MInf = NaN"
| "dlog NaN = NaN"

fun fabs :: "double \<Rightarrow> double" where
  "fabs (Fin a) = Fin \<bar>a\<bar>"
| "fabs PInf = PInf"
| "fabs MInf = PInf"
| "fabs NaN = NaN"

text \<open>\<^verbatim>\<open>eexp\<close>: from log space back to linear space.\<close>

definition eexp :: "double \<Rightarrow> double" where
  "eexp x = (if isnan x then Fin 0 else dexp x)"

text \<open>\<^verbatim>\<open>eln\<close>: from linear space to log space; the last branch throws.\<close>

definition eln :: "double \<Rightarrow> error + double" where
  "eln x =
     (if deq x (Fin 0) then Inr NaN
      else if dgt x (Fin 0) then Inr (dlog x)
      else Inl NegativeLog)"

definition lnSum :: "double \<Rightarrow> double \<Rightarrow> error + double" where
  "lnSum ln_x ln_y =
     (if isnan ln_x \<or> isnan ln_y then
        (if isnan ln_x \<and> isnan ln_y then Inr NaN
         else if isnan ln_x then Inr ln_y
         else Inr ln_x)
      else
        (if dgt ln_x ln_y then
           (case eln (dadd (Fin 1) (eexp (dsub ln_y ln_x))) of
              Inl e \<Rightarrow> Inl e
            | Inr v \<Rightarrow> Inr (dadd ln_x v))
         else
           (case eln (dadd (Fin 1) (eexp (dsub ln_x ln_y))) of
              Inl e \<Rightarrow> Inl e
            | Inr v \<Rightarrow> Inr (dadd ln_y v))))"

definition lnProd :: "double \<Rightarrow> double \<Rightarrow> double" where
  "lnProd ln_x ln_y = (if isnan ln_x \<or> isnan ln_y then NaN else dadd ln_x ln_y)"

definition lnQuot :: "double \<Rightarrow> double \<Rightarrow> error + double" where
  "lnQuot ln_x ln_y =
     (if isnan ln_y then Inl DivideByZero
      else if isnan ln_x then Inr NaN
      else Inr (dsub ln_x ln_y))"

definition lnGreaterThan :: "double \<Rightarrow> double \<Rightarrow> bool" where
  "lnGreaterThan ln_x ln_y =
     (if isnan ln_x \<or> isnan ln_y then
        (if isnan ln_x \<or> (isnan ln_y = False) then False
         else if (isnan ln_x = False) \<or> isnan ln_y then True
         else False)
      else
        (if dgt ln_x ln_y then True else False))"

section \<open>Strings and integers of the C++ library\<close>

text \<open>
  \<^verbatim>\<open>std::to_string\<close> of an unsigned number: its decimal digits, most significant first.
\<close>

fun to_string :: "nat \<Rightarrow> string" where
  "to_string n =
     (if n < 10 then [char_of (48 + n)]
      else to_string (n div 10) @ [char_of (48 + n mod 10)])"

declare to_string.simps [simp del]

text \<open>
  \<^verbatim>\<open>s.substr(pos, len)\<close> at a position inside the string: at most \<open>len\<close> characters
  from \<open>pos\<close> on. The loops below call it with \<open>pos\<close> below the length only.
\<close>

definition substr :: "string \<Rightarrow> nat \<Rightarrow> nat \<Rightarrow> string" where
  "substr s pos len = take len (drop pos s)"

text \<open>
  \<^verbatim>\<open>s.substr(pos, len)\<close> with \<^verbatim>\<open>int\<close> arguments: both are converted to the unsigned
  \<^verbatim>\<open>size_t\<close>. A negative position becomes a number above every string length, and a
  position above the length throws \<^verbatim>\<open>std::out_of_range\<close>; a negative length becomes a
  number above every string length, so the rest of the string is taken.
\<close>

definition substr_from :: "string \<Rightarrow> int \<Rightarrow> int \<Rightarrow> error + string" where
  "substr_from s pos len =
     (if pos < 0 \<or> int (length s) < pos then Inl OutOfRange
      else if len < 0 then Inr (drop (nat pos) s)
      else Inr (substr s (nat pos) (nat len)))"

definition isdigit :: "char \<Rightarrow> bool" where
  "isdigit c = (48 \<le> (of_char c :: nat) \<and> (of_char c :: nat) \<le> 57)"

definition isspace :: "char \<Rightarrow> bool" where
  "isspace c = ((of_char c :: nat) = 32 \<or> (9 \<le> (of_char c :: nat) \<and> (of_char c :: nat) \<le> 13))"

definition digits_val :: "string \<Rightarrow> nat" where
  "digits_val s = foldl (\<lambda>a c. 10 * a + (of_char c - 48)) 0 s"

text \<open>
  \<^verbatim>\<open>atoi\<close>: leading white space is skipped, then an optional sign and the longest run of
  digits are read. The value is a mathematical integer here; C leaves a value outside
  \<^verbatim>\<open>int\<close> undefined, and the conversion to a 32-bit word at the call keeps its low bits.
\<close>

definition atoi :: "string \<Rightarrow> int" where
  "atoi s =
     (case dropWhile isspace s of
        [] \<Rightarrow> 0
      | c # cs \<Rightarrow>
          if c = CHR ''-'' then - int (digits_val (takeWhile isdigit cs))
          else if c = CHR ''+'' then int (digits_val (takeWhile isdigit cs))
          else int (digits_val (takeWhile isdigit (c # cs))))"

text \<open>\<^verbatim>\<open>s.find(c)\<close>: the index of the first \<open>c\<close>, or \<^verbatim>\<open>npos\<close> (here \<open>None\<close>).\<close>

definition find_char :: "string \<Rightarrow> char \<Rightarrow> nat option" where
  "find_char s c = (if c \<in> set s then Some (length (takeWhile (\<lambda>x. x \<noteq> c) s)) else None)"

text \<open>
  \<^verbatim>\<open>name.substr(name.find('_') + 1, 1)\<close>: the character after the first underscore.
  Without an underscore, \<^verbatim>\<open>npos + 1\<close> wraps around to \<open>0\<close> and the first character of
  the name is taken.
\<close>

definition tag :: "string \<Rightarrow> string" where
  "tag nm =
     (case find_char nm CHR ''_'' of
        None \<Rightarrow> substr nm 0 1
      | Some k \<Rightarrow> substr nm (k + 1) 1)"

text \<open>Subtraction of \<^verbatim>\<open>size_t\<close> values wraps around at \<open>2 ^ 64\<close>.\<close>

definition size_t_sub :: "nat \<Rightarrow> nat \<Rightarrow> nat" where
  "size_t_sub a b = (if b \<le> a then a - b else a + 2 ^ 64 - b)"

section \<open>States, distributions and the hidden state graph\<close>

text \<open>
  The emission distributions a state points to. \<open>NullDistribution\<close> is the null pointer
  of the placeholder states that fill the state table before the construction loop.
\<close>

datatype distribution =
    NullDistribution
  | SilentDistribution double double
  | UniformDistribution double double
  | NormalDistribution double double

text \<open>
  Modelled from the spec: the class \<^verbatim>\<open>State\<close> is declared in the Penthus library, which
  is not among the sources. A state is identified by its unique name and carries the
  distribution it is bound to, a meta tag (the k-mer), a tied-group tag and a default
  weight; these are the five arguments of the constructor calls in \<^verbatim>\<open>train_main\<close>, in
  their order.
\<close>

record State =
  dist :: distribution
  name :: string
  meta :: string
  tied :: string
  weight :: double

definition mkState :: "distribution \<Rightarrow> string \<Rightarrow> string \<Rightarrow> string \<Rightarrow> double \<Rightarrow> State" where
  "mkState d n m t w = \<lparr>dist = d, name = n, meta = m, tied = t, weight = w\<rparr>"

text \<open>
  An end point of a transition: one of the two distinguished states \<^verbatim>\<open>hmm.start\<close> and
  \<^verbatim>\<open>hmm.end\<close> of a graph, or a state that was added to it.
\<close>

datatype node = hmm_start | hmm_end | Named State

text \<open>
  Modelled from the spec: the class \<^verbatim>\<open>HiddenMarkovModel\<close> and its builder operations
  \<^verbatim>\<open>add_state\<close>, \<^verbatim>\<open>add_transition\<close> and \<^verbatim>\<open>finalise\<close> belong to the Penthus library,
  which is not among the sources. The graph owns its states and its weighted transitions,
  in the order in which they were added. A state's name must be unique in the graph
  (a duplicate is a construction error), both end points of a transition must be
  registered, and nothing may be added after \<^verbatim>\<open>finalise\<close>. The weight of a transition is
  not inspected when it is inserted.
\<close>

record HiddenMarkovModel =
  hmm_states :: "State list"
  hmm_transitions :: "(node \<times> node \<times> double) list"
  finalised :: bool

definition new_hmm :: HiddenMarkovModel where
  "new_hmm = \<lparr>hmm_states = [], hmm_transitions = [], finalised = False\<rparr>"

definition registered :: "HiddenMarkovModel \<Rightarrow> node \<Rightarrow> bool" where
  "registered h x =
     (case x of
        hmm_start \<Rightarrow> True
      | hmm_end \<Rightarrow> True
      | Named s \<Rightarrow> name s \<in> set (map name (hmm_states h)))"

definition add_state :: "State \<Rightarrow> HiddenMarkovModel \<Rightarrow> error + HiddenMarkovModel" where
  "add_state s h =
     (if finalised h then Inl AlreadyFinalised
      else if name s \<in> set (map name (hmm_states h)) then Inl DuplicateState
      else Inr (h\<lparr>hmm_states := hmm_states h @ [s]\<rparr>))"

definition add_transition ::
  "node \<Rightarrow> node \<Rightarrow> double \<Rightarrow> HiddenMarkovModel \<Rightarrow> error + HiddenMarkovModel" where
  "add_transition a b w h =
     (if finalised h then Inl AlreadyFinalised
      else if registered h a \<and> registered h b
        then Inr (h\<lparr>hmm_transitions := hmm_transitions h @ [(a, b, w)]\<rparr>)
      else Inl UnregisteredState)"

definition finalise :: "HiddenMarkovModel \<Rightarrow> error + HiddenMarkovModel" where
  "finalise h = Inr (h\<lparr>finalised := True\<rparr>)"

section \<open>Loops and statement sequences\<close>

text \<open>
  \<^verbatim>\<open>for (i = i0; i < n; i++) body\<close> over a state \<open>s\<close>: the body runs for
  \<open>i0, i0 + 1, \<dots>\<close> while \<open>i < n\<close>, and the first error ends the loop.
\<close>

function forLoop :: "nat \<Rightarrow> nat \<Rightarrow> (nat \<Rightarrow> 's \<Rightarrow> error + 's) \<Rightarrow> 's \<Rightarrow> error + 's" where
  "forLoop i n body s =
     (if i < n then
        (case body i s of
           Inl e \<Rightarrow> Inl e
         | Inr s' \<Rightarrow> forLoop (Suc i) n body s')
      else Inr s)"
  by pat_completeness auto
termination
  by (relation "measure (\<lambda>(i, n, body, s). n - i)") auto

declare forLoop.simps [simp del]

text \<open>A sequence of statements on a state: the first error ends it.\<close>

fun seqE :: "('s \<Rightarrow> error + 's) list \<Rightarrow> 's \<Rightarrow> error + 's" where
  "seqE [] s = Inr s"
| "seqE (f # fs) s = (case f s of Inl e \<Rightarrow> Inl e | Inr s' \<Rightarrow> seqE fs s')"

section \<open>Building the hidden state graph of a read\<close>

text \<open>
  The transition weights are constants of \<^verbatim>\<open>poreSpecificParameters.h\<close>, which is not
  among the sources; they are a parameter of the construction.
\<close>

record poreSpecificParameters =
  internalSS2M1 :: double
  internalSS2M2 :: double
  internalD2I :: double
  internalI2I :: double
  internalI2SS :: double
  internalM12M1 :: double
  internalM12SE :: double
  internalM22M2 :: double
  internalM22SE :: double
  internalSE2I :: double
  externalD2D :: double
  externalD2SS :: double
  externalI2SS :: double
  externalSE2SS :: double
  externalSE2D :: double

text \<open>
  A training read: the base calls, the region of interest on the reference and the raw
  signal. The bounds of the region are C \<^verbatim>\<open>int\<close>s read by \<^verbatim>\<open>atoi\<close>; reference
  positions and sequence lengths stay far below \<open>2 ^ 31\<close> and are modelled as unbounded
  integers and natural numbers.
\<close>

record read =
  basecalls :: string
  ROIbounds :: "int \<times> int"
  raw :: "double list"

text \<open>The table \<^verbatim>\<open>FiveMer_model\<close> from a 5-mer to its mean and standard deviation.\<close>

type_synonym pore_model = "string \<rightharpoonup> double \<times> double"

definition sd :: distribution where
  "sd = SilentDistribution (Fin 0) (Fin 0)"

definition ud :: distribution where
  "ud = UniformDistribution (Fin 50) (Fin 150)"

text \<open>
  \<^verbatim>\<open>states[j][i]\<close> as an operand of \<^verbatim>\<open>add_transition\<close>. Reading outside the table is
  undefined behaviour in C++ and an error here.
\<close>

definition at2 :: "State list list \<Rightarrow> nat \<Rightarrow> nat \<Rightarrow> error + node" where
  "at2 states j i =
     (if j < length states \<and> i < length (states ! j) then Inr (Named (states ! j ! i))
      else Inl (OutOfBounds ''states''))"

text \<open>The assignment \<^verbatim>\<open>states[j][i] = v\<close>.\<close>

definition upd2 :: "State list list \<Rightarrow> nat \<Rightarrow> nat \<Rightarrow> State \<Rightarrow> State list list" where
  "upd2 states j i v = states[j := (states ! j)[i := v]]"

text \<open>The statement \<^verbatim>\<open>hmm.add_transition(a, b, w)\<close> with its operands evaluated first.\<close>

definition transition ::
  "(error + node) \<Rightarrow> (error + node) \<Rightarrow> double \<Rightarrow> HiddenMarkovModel \<Rightarrow> error + HiddenMarkovModel" where
  "transition a b w hmm =
     (case a of
        Inl e \<Rightarrow> Inl e
      | Inr x \<Rightarrow> (case b of Inl e \<Rightarrow> Inl e | Inr y \<Rightarrow> add_transition x y w hmm))"

text \<open>
  The body of the first loop: \<^verbatim>\<open>FiveMer_model.at\<close> throws \<^verbatim>\<open>std::out_of_range\<close> for
  a 5-mer that the table does not have.
\<close>

definition addDistribution ::
  "pore_model \<Rightarrow> string \<Rightarrow> nat \<Rightarrow> distribution list \<Rightarrow> error + distribution list" where
  "addDistribution model refSeqMapped i nd =
     (case model (substr refSeqMapped i 5) of
        None \<Rightarrow> Inl OutOfRange
      | Some emissionMeanAndStd \<Rightarrow>
          Inr (nd @ [NormalDistribution (fst emissionMeanAndStd) (snd emissionMeanAndStd)]))"

text \<open>The body of the loop over the six rows: set the meta tag, then add the state.\<close>

definition addStateCopy ::
  "string \<Rightarrow> nat \<Rightarrow> nat \<Rightarrow> State list list \<times> HiddenMarkovModel \<Rightarrow>
     error + State list list \<times> HiddenMarkovModel" where
  "addStateCopy fiveMer i j sh =
     (case sh of (states, hmm) \<Rightarrow>
        (let states' = upd2 states j i ((states ! j ! i)\<lparr>meta := fiveMer\<rparr>) in
         case add_state (states' ! j ! i) hmm of
           Inl e \<Rightarrow> Inl e
         | Inr hmm' \<Rightarrow> Inr (states', hmm')))"

text \<open>
  The body of the second loop, for position \<open>i\<close>: the six states of the module, their
  registration, and the ten transitions inside the module. The position in a name is
  \<^verbatim>\<open>i + ROIbounds.first\<close>; the region's start is not negative here, since the
  \<^verbatim>\<open>substr\<close> call that cut the mapped sequence has succeeded.
\<close>

definition addModule ::
  "poreSpecificParameters \<Rightarrow> read \<Rightarrow> string \<Rightarrow> distribution list \<Rightarrow> nat \<Rightarrow>
     State list list \<times> HiddenMarkovModel \<Rightarrow> error + State list list \<times> HiddenMarkovModel" where
  "addModule p rd refSeqMapped nd i sh =
     (case sh of (states0, hmm) \<Rightarrow>
        (let loc = to_string (i + nat (fst (ROIbounds rd)));
             fiveMer = substr refSeqMapped i 5;
             states1 = upd2 states0 0 i (mkState sd (loc @ ''_SS'') fiveMer [] (Fin 1));
             states2 = upd2 states1 1 i (mkState sd (loc @ ''_D'') fiveMer [] (Fin 1));
             states3 = upd2 states2 2 i (mkState ud (loc @ ''_I'') fiveMer [] (Fin 1));
             states4 = upd2 states3 3 i
               (mkState (nd ! i) (loc @ ''_M1'') fiveMer (loc @ ''_match'') (Fin 1));
             states5 = upd2 states4 4 i
               (mkState (nd ! i) (loc @ ''_M2'') fiveMer (loc @ ''_match'') (Fin 1));
             states6 = upd2 states5 5 i (mkState sd (loc @ ''_SE'') fiveMer [] (Fin 1))
         in case forLoop 0 6 (addStateCopy fiveMer i) (states6, hmm) of
              Inl e \<Rightarrow> Inl e
            | Inr (states, hmm1) \<Rightarrow>
                (case seqE
                   [transition (at2 states 0 i) (at2 states 3 i) (internalSS2M1 p),
                    transition (at2 states 0 i) (at2 states 4 i) (internalSS2M2 p),
                    transition (at2 states 1 i) (at2 states 2 i) (internalD2I p),
                    transition (at2 states 2 i) (at2 states 2 i) (internalI2I p),
                    transition (at2 states 2 i) (at2 states 0 i) (internalI2SS p),
                    transition (at2 states 3 i) (at2 states 3 i) (internalM12M1 p),
                    transition (at2 states 3 i) (at2 states 5 i) (internalM12SE p),
                    transition (at2 states 4 i) (at2 states 4 i) (internalM22M2 p),
                    transition (at2 states 4 i) (at2 states 5 i) (internalM22SE p),
                    transition (at2 states 5 i) (at2 states 2 i) (internalSE2I p)] hmm1 of
                   Inl e \<Rightarrow> Inl e
                 | Inr hmm2 \<Rightarrow> Inr (states, hmm2))))"

text \<open>The body of the third loop: the five transitions from module \<open>i\<close> to module \<open>i + 1\<close>.\<close>

definition addExternal ::
  "poreSpecificParameters \<Rightarrow> State list list \<Rightarrow> nat \<Rightarrow> HiddenMarkovModel \<Rightarrow>
     error + HiddenMarkovModel" where
  "addExternal p states i hmm =
     seqE
       [transition (at2 states 1 i) (at2 states 1 (i + 1)) (externalD2D p),
        transition (at2 states 1 i) (at2 states 0 (i + 1)) (externalD2SS p),
        transition (at2 states 2 i) (at2 states 0 (i + 1)) (externalI2SS p),
        transition (at2 states 5 i) (at2 states 0 (i + 1)) (externalSE2SS p),
        transition (at2 states 5 i) (at2 states 1 (i + 1)) (externalSE2D p)] hmm"

text \<open>
  Lines 159 to 245 of \<^verbatim>\<open>train_main\<close>. The table \<^verbatim>\<open>states\<close> has six rows of
  \<^verbatim>\<open>length - 5\<close> placeholders; for a mapped sequence shorter than five characters that
  unsigned number wraps around and the allocation throws. The bound \<^verbatim>\<open>length - 6\<close> of
  the third loop and the index of the last module wrap around for a length of five, and
  the table is then read outside its rows.
\<close>

definition buildHMM ::
  "poreSpecificParameters \<Rightarrow> pore_model \<Rightarrow> read \<Rightarrow> string \<Rightarrow> error + HiddenMarkovModel" where
  "buildHMM p model rd refSeqMapped =
     (let L = length refSeqMapped in
      if L < 5 then Inl LengthError
      else
        (case forLoop 0 (L - 5) (addDistribution model refSeqMapped) [] of
           Inl e \<Rightarrow> Inl e
         | Inr nd \<Rightarrow>
        (case forLoop 0 (L - 5) (addModule p rd refSeqMapped nd)
                (replicate 6 (replicate (L - 5) (mkState NullDistribution [] [] [] (Fin 1))),
                 new_hmm) of
           Inl e \<Rightarrow> Inl e
         | Inr (states, hmm1) \<Rightarrow>
        (case forLoop 0 (size_t_sub L 6) (addExternal p states) hmm1 of
           Inl e \<Rightarrow> Inl e
         | Inr hmm2 \<Rightarrow>
             seqE
               [transition (Inr hmm_start) (at2 states 0 0) (Fin (1 / 2)),
                transition (Inr hmm_start) (at2 states 1 0) (Fin (1 / 2)),
                transition (at2 states 1 (size_t_sub L 6)) (Inr hmm_end)
                  (dadd (externalD2D p) (externalD2SS p)),
                transition (at2 states 2 (size_t_sub L 6)) (Inr hmm_end) (externalI2SS p),
                transition (at2 states 5 (size_t_sub L 6)) (Inr hmm_end)
                  (dadd (externalSE2SS p) (externalSE2D p)),
                finalise] hmm2))))"

section \<open>Aligning reads and pooling events\<close>

record eventDataForRead =
  normalisedEvents :: "double list"
  qualityScore :: double

text \<open>
  The parsed command line. A C \<^verbatim>\<open>int\<close> that meets an \<^verbatim>\<open>unsigned int\<close> in a comparison
  is a 32-bit word: \<open>sint\<close> reads it as the \<^verbatim>\<open>int\<close> it is, and the order \<open>\<le>\<close> of
  words is the one of \<^verbatim>\<open>unsigned int\<close>, to which C converts both operands.
\<close>

record Arguments =
  trainingDataFilename :: string
  trainingOutputFilename :: string
  logFile :: bool
  logFilename :: string
  threads :: "32 word"
  boundLower :: "32 word"
  boundUpper :: "32 word"

text \<open>
  The functions \<^verbatim>\<open>train_main\<close> calls whose definitions are not among the sources are
  parameters: the transition weights, the normalisation of a read's signal, the Viterbi
  decoder of the graph, the string splitter of \<^verbatim>\<open>common.h\<close> and the mixture fitter.
  A decoder or a fitter that throws returns \<open>Inl\<close>.
\<close>

record collaborators =
  pore :: poreSpecificParameters
  normaliseEvents :: "read \<Rightarrow> eventDataForRead"
  viterbi :: "HiddenMarkovModel \<Rightarrow> double list \<Rightarrow> error + double \<times> State list"
  split :: "string \<Rightarrow> char \<Rightarrow> string list"
  gaussianMixtureEM ::
    "double \<Rightarrow> double \<Rightarrow> double \<Rightarrow> double \<Rightarrow> double list \<Rightarrow> double \<Rightarrow> error + double list"

text \<open>The test of line 256: the state's name is tagged \<open>M\<close> or \<open>I\<close>.\<close>

definition emitting :: "State \<Rightarrow> bool" where
  "emitting s \<longleftrightarrow> tag (name s) = ''M'' \<or> tag (name s) = ''I''"

text \<open>
  The event pool \<^verbatim>\<open>std::map< int, std::vector< double > >\<close>: the entries in ascending
  order of their keys. \<open>push_back_at k v\<close> is \<^verbatim>\<open>eventPileup[k].push_back(v)\<close>, which makes
  the entry when the key is new.
\<close>

type_synonym pileup = "(int \<times> double list) list"

fun push_back_at :: "int \<Rightarrow> double \<Rightarrow> pileup \<Rightarrow> pileup" where
  "push_back_at k v [] = [(k, [v])]"
| "push_back_at k v ((k', vs) # rest) =
     (if k = k' then (k', vs @ [v]) # rest
      else if k < k' then (k, [v]) # (k', vs) # rest
      else (k', vs) # push_back_at k v rest)"

text \<open>
  The body of the pooling loop, lines 262 to 271, for observation \<open>i\<close>. The vectors
  \<^verbatim>\<open>emittingStatePath\<close> and \<^verbatim>\<open>findIndex\<close> are indexed without a check; an index outside
  them is undefined behaviour in C++ and an error here. \<^verbatim>\<open>posOnReference\<close> is an
  \<^verbatim>\<open>unsigned int\<close>, the bounds are \<^verbatim>\<open>int\<close>s, and the key of the pool is an \<^verbatim>\<open>int\<close>.
\<close>

definition poolEvent ::
  "collaborators \<Rightarrow> Arguments \<Rightarrow> State list \<Rightarrow> double list \<Rightarrow> nat \<Rightarrow> pileup \<Rightarrow> error + pileup" where
  "poolEvent env trainArgs emittingStatePath events i eventPileup =
     (if i < length emittingStatePath then
        (case split env (name (emittingStatePath ! i)) CHR ''_'' of
           [] \<Rightarrow> Inl (OutOfBounds ''findIndex'')
         | f # fs \<Rightarrow>
             (let posOnReference = (word_of_int (atoi f) :: 32 word) in
              if boundLower trainArgs \<le> posOnReference \<and> posOnReference < boundUpper trainArgs
              then Inr (push_back_at (sint posOnReference) (events ! i) eventPileup)
              else Inr eventPileup))
      else Inl (OutOfBounds ''emittingStatePath''))"

definition poolEvents ::
  "collaborators \<Rightarrow> Arguments \<Rightarrow> State list \<Rightarrow> double list \<Rightarrow> pileup \<Rightarrow> error + pileup" where
  "poolEvents env trainArgs emittingStatePath events eventPileup =
     forLoop 0 (length events) (poolEvent env trainArgs emittingStatePath events) eventPileup"

text \<open>What the loop over the reads carries from one read to the next.\<close>

record training =
  eventPileup :: pileup
  prog :: int

text \<open>
  The body of the loop over the reads from line 152 on, for a read whose three lines have
  been parsed. \<^verbatim>\<open>continue\<close> leaves the pool and the progress counter as they are. An
  exception of the graph construction, of the decoder or of the pooling loop is not
  caught in \<^verbatim>\<open>train_main\<close> and ends the run. The progress display only writes to the
  terminal and is left out.
\<close>

definition processRead ::
  "collaborators \<Rightarrow> Arguments \<Rightarrow> pore_model \<Rightarrow> string \<Rightarrow> read \<Rightarrow> training \<Rightarrow> error + training" where
  "processRead env trainArgs model reference currentRead st =
     (let eventData = normaliseEvents env currentRead in
      if dgt (fabs (qualityScore eventData)) (Fin 1) then Inr st
      else
        (case substr_from reference (fst (ROIbounds currentRead))
                (snd (ROIbounds currentRead) - fst (ROIbounds currentRead)) of
           Inl e \<Rightarrow> Inl e
         | Inr refSeqMapped \<Rightarrow>
        (case buildHMM (pore env) model currentRead refSeqMapped of
           Inl e \<Rightarrow> Inl e
         | Inr hmm \<Rightarrow>
        (case viterbi env hmm (normalisedEvents eventData) of
           Inl e \<Rightarrow> Inl e
         | Inr viterbiData \<Rightarrow>
        (let statePath = snd viterbiData;
             emittingStatePath = filter emitting statePath
         in case poolEvents env trainArgs emittingStatePath (normalisedEvents eventData)
                   (eventPileup st) of
              Inl e \<Rightarrow> Inl e
            | Inr pile \<Rightarrow> Inr (st\<lparr>eventPileup := pile, prog := prog st + 1\<rparr>))))))"

fun alignReads ::
  "collaborators \<Rightarrow> Arguments \<Rightarrow> pore_model \<Rightarrow> string \<Rightarrow> read list \<Rightarrow> training \<Rightarrow>
     error + training" where
  "alignReads env trainArgs model reference [] st = Inr st"
| "alignReads env trainArgs model reference (currentRead # rest) st =
     (case processRead env trainArgs model reference currentRead st of
        Inl e \<Rightarrow> Inl e
      | Inr st' \<Rightarrow> alignReads env trainArgs model reference rest st')"

section \<open>Fitting and writing the trained model\<close>

text \<open>
  What is written to a stream by one \<^verbatim>\<open><<\<close>: a string, a character, a number, or
  \<^verbatim>\<open>std::endl\<close>. A number is kept as the double that is written; its decimal rendering
  is outside the model.
\<close>

datatype token = Text string | Chr char | Num double | Endl

definition tab :: token where
  "tab = Chr (CHR 0x09)"

text \<open>Line 114: the header row of the output file.\<close>

definition header :: "token list" where
  "header =
     [Text ''5mer'', tab, Text ''ONT_mean'', tab, Text ''ONT_stdv'', tab, Text ''pi_1'', tab,
      Text ''mean_1'', tab, Text ''stdv_2'', tab, Text ''pi_2'', tab, Text ''mean_1'', tab,
      Text ''stdv_2'', Endl]"

text \<open>
  \<^verbatim>\<open>FiveMer_model[k]\<close>: \<^verbatim>\<open>operator[]\<close> of a map makes an entry with the value
  \<open>(0, 0)\<close> for a key that is not there.
\<close>

definition lookup_or_insert :: "pore_model \<Rightarrow> string \<Rightarrow> (double \<times> double) \<times> pore_model" where
  "lookup_or_insert m k =
     (case m k of
        None \<Rightarrow> ((Fin 0, Fin 0), m(k \<mapsto> (Fin 0, Fin 0)))
      | Some v \<Rightarrow> (v, m))"

definition what_NegativeLog :: string where
  "what_NegativeLog = ''Negative value passed to natural log function.''"

text \<open>The output file, the terminal and the table that the second loop changes.\<close>

record streams =
  outFile :: "token list"
  cout :: "token list"
  FiveMer_model :: pore_model

text \<open>
  The body of the loop over the event pool, lines 283 to 303. Only \<^verbatim>\<open>NegativeLog\<close> is
  caught; the handler writes to the terminal and goes on to the next position.
  \<^verbatim>\<open>fitParameters\<close> is indexed without a check.
\<close>

definition fitPosition ::
  "collaborators \<Rightarrow> string \<Rightarrow> int \<Rightarrow> double list \<Rightarrow> streams \<Rightarrow> error + streams" where
  "fitPosition env reference key events io =
     (case substr_from reference key 5 of
        Inl e \<Rightarrow> Inl e
      | Inr fiveMer \<Rightarrow>
          (let (ms1, model1) = lookup_or_insert (FiveMer_model io) fiveMer;
               mu1 = fst ms1;
               (ms2, model2) = lookup_or_insert model1 fiveMer;
               stdv1 = snd ms2;
               mu2 = dadd mu1 (Fin 1);
               stdv2 = stdv1
           in case gaussianMixtureEM env mu1 stdv1 mu2 stdv2 events (Fin 0.0001) of
                Inl e \<Rightarrow>
                  if e = NegativeLog then
                    Inr (io\<lparr>cout := cout io @
                              [Text what_NegativeLog, Endl, Text ''Aborted training on: '',
                               Text fiveMer, Endl],
                            FiveMer_model := model2\<rparr>)
                  else Inl e
              | Inr fitParameters \<Rightarrow>
                  if length fitParameters < 6 then Inl (OutOfBounds ''fitParameters'')
                  else
                    Inr (io\<lparr>outFile := outFile io @
                              [Text fiveMer, tab, Num mu1, tab, Num stdv1, tab,
                               Num (fitParameters ! 0), tab, Num (fitParameters ! 1), tab,
                               Num (fitParameters ! 2), tab, Num (fitParameters ! 3), tab,
                               Num (fitParameters ! 4), tab, Num (fitParameters ! 5), Endl],
                            FiveMer_model := model2\<rparr>)))"

fun fitPositions :: "collaborators \<Rightarrow> string \<Rightarrow> pileup \<Rightarrow> streams \<Rightarrow> error + streams" where
  "fitPositions env reference [] io = Inr io"
| "fitPositions env reference ((key, events) # rest) io =
     (case fitPosition env reference key events io of
        Inl e \<Rightarrow> Inl e
      | Inr io' \<Rightarrow> fitPositions env reference rest io')"

text \<open>
  \<^verbatim>\<open>train_main\<close> from the header row on, for a training file whose reference line and
  reads have been parsed: the header, the loop over the reads, the loop over the pool.
\<close>

definition train_main ::
  "collaborators \<Rightarrow> Arguments \<Rightarrow> pore_model \<Rightarrow> string \<Rightarrow> read list \<Rightarrow> error + streams" where
  "train_main env trainArgs model reference reads =
     (let io = \<lparr>outFile = header, cout = [], FiveMer_model = model\<rparr> in
      case alignReads env trainArgs model reference reads \<lparr>eventPileup = [], prog = 0\<rparr> of
        Inl e \<Rightarrow> Inl e
      | Inr st \<Rightarrow> fitPositions env reference (eventPileup st) io)"

section \<open>The log-space sum, the graph, the pool and the output as the specification describes them\<close>

text \<open>
  The larger and the smaller of two doubles of which neither is NaN, as the description
  of \<open>lnSum\<close> names them.
\<close>

definition dmax :: "double \<Rightarrow> double \<Rightarrow> double" where
  "dmax a b = (if dgt a b then a else b)"

definition dmin :: "double \<Rightarrow> double \<Rightarrow> double" where
  "dmin a b = (if dgt a b then b else a)"

text \<open>
  The exponential of a real number as \<^verbatim>\<open>exp\<close> returns it where it cannot overflow:
  zero at or below the underflow bound.
\<close>

definition uexp :: "real \<Rightarrow> real" where
  "uexp t = (if exp t \<le> underflow_bound then 0 else exp t)"

text \<open>
  The six states of a module, in the order of the rows of the table \<^verbatim>\<open>states\<close>:
  skip-start, deletion, insertion, the two match states and skip-end.
\<close>

datatype role = role_SS | role_D | role_I | role_M1 | role_M2 | role_SE

definition roles :: "role list" where
  "roles = [role_SS, role_D, role_I, role_M1, role_M2, role_SE]"

text \<open>The normal distribution of a 5-mer that the table has.\<close>

definition emission :: "pore_model \<Rightarrow> string \<Rightarrow> distribution" where
  "emission model kmer =
     (case model kmer of
        Some ms \<Rightarrow> NormalDistribution (fst ms) (snd ms)
      | None \<Rightarrow> NullDistribution)"

text \<open>
  The state of role \<open>r\<close> in the module of position \<open>i\<close> of the mapped sequence: silent for
  skip-start, deletion and skip-end, uniform for the insertion, and the position's normal
  distribution for both match states, which are tied to each other.
\<close>

definition module_state :: "pore_model \<Rightarrow> read \<Rightarrow> string \<Rightarrow> nat \<Rightarrow> role \<Rightarrow> State" where
  "module_state model rd refSeqMapped i r =
     (let loc = to_string (i + nat (fst (ROIbounds rd)));
          fiveMer = substr refSeqMapped i 5
      in case r of
           role_SS \<Rightarrow> mkState sd (loc @ ''_SS'') fiveMer [] (Fin 1)
         | role_D \<Rightarrow> mkState sd (loc @ ''_D'') fiveMer [] (Fin 1)
         | role_I \<Rightarrow> mkState ud (loc @ ''_I'') fiveMer [] (Fin 1)
         | role_M1 \<Rightarrow>
             mkState (emission model fiveMer) (loc @ ''_M1'') fiveMer (loc @ ''_match'') (Fin 1)
         | role_M2 \<Rightarrow>
             mkState (emission model fiveMer) (loc @ ''_M2'') fiveMer (loc @ ''_match'') (Fin 1)
         | role_SE \<Rightarrow> mkState sd (loc @ ''_SE'') fiveMer [] (Fin 1))"

definition module_states :: "(nat \<Rightarrow> role \<Rightarrow> State) \<Rightarrow> nat \<Rightarrow> State list" where
  "module_states S i = [S i role_SS, S i role_D, S i role_I, S i role_M1, S i role_M2, S i role_SE]"

definition graph_states :: "(nat \<Rightarrow> role \<Rightarrow> State) \<Rightarrow> nat \<Rightarrow> State list" where
  "graph_states S n = concat (map (module_states S) [0..<n])"

definition internal_transitions ::
  "poreSpecificParameters \<Rightarrow> (nat \<Rightarrow> role \<Rightarrow> State) \<Rightarrow> nat \<Rightarrow> (node \<times> node \<times> double) list" where
  "internal_transitions p S i =
     [(Named (S i role_SS), Named (S i role_M1), internalSS2M1 p),
      (Named (S i role_SS), Named (S i role_M2), internalSS2M2 p),
      (Named (S i role_D), Named (S i role_I), internalD2I p),
      (Named (S i role_I), Named (S i role_I), internalI2I p),
      (Named (S i role_I), Named (S i role_SS), internalI2SS p),
      (Named (S i role_M1), Named (S i role_M1), internalM12M1 p),
      (Named (S i role_M1), Named (S i role_SE), internalM12SE p),
      (Named (S i role_M2), Named (S i role_M2), internalM22M2 p),
      (Named (S i role_M2), Named (S i role_SE), internalM22SE p),
      (Named (S i role_SE), Named (S i role_I), internalSE2I p)]"

definition external_transitions ::
  "poreSpecificParameters \<Rightarrow> (nat \<Rightarrow> role \<Rightarrow> State) \<Rightarrow> nat \<Rightarrow> (node \<times> node \<times> double) list" where
  "external_transitions p S i =
     [(Named (S i role_D), Named (S (i + 1) role_D), externalD2D p),
      (Named (S i role_D), Named (S (i + 1) role_SS), externalD2SS p),
      (Named (S i role_I), Named (S (i + 1) role_SS), externalI2SS p),
      (Named (S i role_SE), Named (S (i + 1) role_SS), externalSE2SS p),
      (Named (S i role_SE), Named (S (i + 1) role_D), externalSE2D p)]"

definition start_transitions :: "(nat \<Rightarrow> role \<Rightarrow> State) \<Rightarrow> (node \<times> node \<times> double) list" where
  "start_transitions S =
     [(hmm_start, Named (S 0 role_SS), Fin (1 / 2)),
      (hmm_start, Named (S 0 role_D), Fin (1 / 2))]"

definition end_transitions ::
  "poreSpecificParameters \<Rightarrow> (nat \<Rightarrow> role \<Rightarrow> State) \<Rightarrow> nat \<Rightarrow> (node \<times> node \<times> double) list" where
  "end_transitions p S l =
     [(Named (S l role_D), hmm_end, dadd (externalD2D p) (externalD2SS p)),
      (Named (S l role_I), hmm_end, externalI2SS p),
      (Named (S l role_SE), hmm_end, dadd (externalSE2SS p) (externalSE2D p))]"

text \<open>A state table of six rows of \<open>n\<close> columns.\<close>

definition grid :: "nat \<Rightarrow> State list list \<Rightarrow> bool" where
  "grid n states \<longleftrightarrow> length states = 6 \<and> (\<forall>j<6. length (states ! j) = n)"

text \<open>Every key of the pool lies in the half-open interval of the two bounds.\<close>

definition within_bounds :: "Arguments \<Rightarrow> pileup \<Rightarrow> bool" where
  "within_bounds trainArgs pile \<longleftrightarrow>
     (\<forall>k \<in> fst ` set pile. sint (boundLower trainArgs) \<le> k \<and> k < sint (boundUpper trainArgs))"

text \<open>What \<^verbatim>\<open>FiveMer_model[k]\<close> returns, whether or not it makes an entry.\<close>

definition lookup_default :: "pore_model \<Rightarrow> string \<Rightarrow> double \<times> double" where
  "lookup_default m k = (case m k of None \<Rightarrow> (Fin 0, Fin 0) | Some v \<Rightarrow> v)"

text \<open>
  The fit of the events pooled at a 5-mer: seeded with the table's distribution and with
  a second one whose mean is larger by one.
\<close>

definition fit ::
  "collaborators \<Rightarrow> pore_model \<Rightarrow> string \<Rightarrow> double list \<Rightarrow> error + double list" where
  "fit env model fiveMer events =
     (let mu1 = fst (lookup_default model fiveMer);
          stdv1 = snd (lookup_default model fiveMer)
      in gaussianMixtureEM env mu1 stdv1 (dadd mu1 (Fin 1)) stdv1 events (Fin 0.0001))"

text \<open>
  The output record of a position: the k-mer, the reference mean and standard deviation,
  and the six fit parameters, separated by tabs and ended by a line end.
\<close>

definition record_of :: "pore_model \<Rightarrow> string \<Rightarrow> double list \<Rightarrow> token list" where
  "record_of model fiveMer fitParameters =
     [Text fiveMer, tab, Num (fst (lookup_default model fiveMer)), tab,
      Num (snd (lookup_default model fiveMer)), tab,
      Num (fitParameters ! 0), tab, Num (fitParameters ! 1), tab, Num (fitParameters ! 2), tab,
      Num (fitParameters ! 3), tab, Num (fitParameters ! 4), tab, Num (fitParameters ! 5), Endl]"

text \<open>The fields of a row: its tokens without the separators and the line end.\<close>

definition fields :: "token list \<Rightarrow> token list" where
  "fields row = filter (\<lambda>t. t \<noteq> tab \<and> t \<noteq> Endl) row"

text \<open>What a position of the pool adds to the output file: nothing, or its record.\<close>

definition rows_of ::
  "collaborators \<Rightarrow> pore_model \<Rightarrow> string \<Rightarrow> int \<times> double list \<Rightarrow> token list" where
  "rows_of env model reference entry =
     (let fiveMer = substr reference (nat (fst entry)) 5 in
      case fit env model fiveMer (snd entry) of
        Inl e \<Rightarrow> []
      | Inr fitParameters \<Rightarrow> record_of model fiveMer fitParameters)"

definition fit_succeeds ::
  "collaborators \<Rightarrow> pore_model \<Rightarrow> string \<Rightarrow> int \<times> double list \<Rightarrow> bool" where
  "fit_succeeds env model reference entry \<longleftrightarrow>
     \<not> isl (fit env model (substr reference (nat (fst entry)) 5) (snd entry))"

text \<open>
  A position of the pool at which the fit either raises \<open>NegativeLog\<close> or returns its
  six parameters, and whose key is a position of the reference.
\<close>

definition fit_settles ::
  "collaborators \<Rightarrow> pore_model \<Rightarrow> string \<Rightarrow> int \<times> double list \<Rightarrow> bool" where
  "fit_settles env model reference entry \<longleftrightarrow>
     0 \<le> fst entry \<and> fst entry \<le> int (length reference) \<and>
     (case fit env model (substr reference (nat (fst entry)) 5) (snd entry) of
        Inl e \<Rightarrow> e = NegativeLog
      | Inr fitParameters \<Rightarrow> 6 \<le> length fitParameters)"

section \<open>Sample inputs\<close>

text \<open>
  Concrete collaborators and a one-read training set, on which the theorems below are
  instantiated: a reference of seventeen bases, a read mapped to its last seven, a decoder
  that returns a fixed path through the first module, and a fitter that fails on an empty
  pool.
\<close>

definition sample_pore :: poreSpecificParameters where
  "sample_pore =
     \<lparr>internalSS2M1 = Fin (1 / 2), internalSS2M2 = Fin (1 / 2), internalD2I = Fin 1,
      internalI2I = Fin (1 / 4), internalI2SS = Fin (1 / 4), internalM12M1 = Fin (1 / 2),
      internalM12SE = Fin (1 / 2), internalM22M2 = Fin (1 / 2), internalM22SE = Fin (1 / 2),
      internalSE2I = Fin (1 / 4), externalD2D = Fin (1 / 4), externalD2SS = Fin (1 / 4),
      externalI2SS = Fin (1 / 2), externalSE2SS = Fin (1 / 2), externalSE2D = Fin (1 / 4)\<rparr>"

definition sample_model :: pore_model where
  "sample_model = [''AAAAA'' \<mapsto> (Fin 80, Fin 2)]"

definition sample_reference :: string where
  "sample_reference = ''AAAAAAAAAAAAAAAAA''"

definition sample_read :: read where
  "sample_read = \<lparr>basecalls = ''AAAAAAA'', ROIbounds = (10, 17), raw = [Fin 80]\<rparr>"

fun split_on :: "string \<Rightarrow> char \<Rightarrow> string list" where
  "split_on [] c = []"
| "split_on (x # xs) c =
     (if x = c then [] # split_on xs c
      else (case split_on xs c of [] \<Rightarrow> [[x]] | w # ws \<Rightarrow> (x # w) # ws))"

definition sample_env :: "double \<Rightarrow> collaborators" where
  "sample_env q =
     \<lparr>pore = sample_pore,
      normaliseEvents = (\<lambda>rd. \<lparr>normalisedEvents = raw rd, qualityScore = q\<rparr>),
      viterbi = (\<lambda>hmm obs.
        if length (hmm_states hmm) < 8 then Inl Unalignable
        else Inr (Fin 0, [hmm_states hmm ! 0, hmm_states hmm ! 3, hmm_states hmm ! 5,
                          hmm_states hmm ! 7])),
      split = split_on,
      gaussianMixtureEM = (\<lambda>mu1 stdv1 mu2 stdv2 events tolerance.
        if events = [] then Inl NegativeLog
        else Inr [Fin (1 / 2), mu1, stdv1, Fin (1 / 2), mu2, stdv2])\<rparr>"

definition sample_args :: "32 word \<Rightarrow> 32 word \<Rightarrow> Arguments" where
  "sample_args lo hi =
     \<lparr>trainingDataFilename = ''data.foh'', trainingOutputFilename = ''output.txt'',
      logFile = False, logFilename = [], threads = 1, boundLower = lo, boundUpper = hi\<rparr>"

section \<open>Lemmas\<close>

subsection \<open>The range of doubles and the exponential\<close>

lemma overflow_bound_gt: "2 ^ 1023 < overflow_bound"
  by (simp add: overflow_bound_def)

lemma overflow_bound_le: "overflow_bound \<le> 2 ^ 1024"
  by (simp add: overflow_bound_def)

lemma underflow_bound_lt: "underflow_bound < 1 / 2 ^ 1023"
  by (simp add: underflow_bound_def)

lemma exp_1_ge: "(13589 / 5000 :: real) \<le> exp 1"
proof -
  have "(13589 / 5000 :: real) \<le> (2113 / 2048) ^ 32"
    by (simp add: power_divide)
  also have "\<dots> \<le> exp (1 / 32) ^ 32"
    using exp_lower_Taylor_quadratic [of "1 / 32 :: real"]
    by (intro power_mono) (simp_all add: power2_eq_square)
  also have "\<dots> = exp (1 :: real)"
    using exp_of_nat_mult [of 32 "1 / 32 :: real"] by simp
  finally show ?thesis .
qed

lemma exp_1_le: "exp 1 \<le> (11 / 4 :: real)"
proof -
  have "exp (1 :: real) = exp (1 / 64) ^ 64"
    using exp_of_nat_mult [of 64 "1 / 64 :: real"] by simp
  also have "\<dots> \<le> (4161 / 4096) ^ 64"
    using exp_bound [of "1 / 64 :: real"]
    by (intro power_mono) (simp_all add: power2_eq_square)
  also have "\<dots> \<le> (11 / 4 :: real)"
    by (simp add: power_divide)
  finally show ?thesis .
qed

lemma exp_nat: "exp (real n) = exp 1 ^ n"
  using exp_of_nat_mult [of n "1 :: real"] by simp

lemma exp_ge_pow2:
  assumes "(2 :: real) ^ m \<le> (13589 / 5000) ^ k"
  shows "(2 :: real) ^ m \<le> exp (real k)"
proof -
  have "(13589 / 5000 :: real) ^ k \<le> exp 1 ^ k"
    by (rule power_mono [OF exp_1_ge]) simp
  with assms show ?thesis
    by (simp add: exp_nat)
qed

lemma exp_34_ge: "(2 :: real) ^ 49 \<le> exp 34"
  using exp_ge_pow2 [of 49 34] by (simp add: power_divide)

lemma exp_32_ge: "(2 :: real) ^ 46 \<le> exp 32"
  using exp_ge_pow2 [of 46 32] by (simp add: power_divide)

lemma exp_52_ge: "(2 :: real) ^ 75 \<le> exp 52"
  using exp_ge_pow2 [of 75 52] by (simp add: power_divide)

lemma exp_746_ge: "(2 :: real) ^ 1075 \<le> exp 746"
proof -
  have "(2 :: real) ^ 1075 = (2 ^ 49) ^ 21 * 2 ^ 46"
    by (simp only: power_mult [symmetric] power_add [symmetric]) simp
  also have "\<dots> \<le> exp 34 ^ 21 * exp 32"
    by (intro mult_mono power_mono exp_34_ge exp_32_ge) simp_all
  also have "\<dots> = exp (746 :: real)"
    by (simp only: exp_of_nat_mult [symmetric] exp_add [symmetric]) simp
  finally show ?thesis .
qed

lemma exp_710_ge: "(2 :: real) ^ 1024 \<le> exp 710"
proof -
  have "(2 :: real) ^ 1024 = (2 ^ 75) ^ 13 * 2 ^ 49"
    by (simp only: power_mult [symmetric] power_add [symmetric]) simp
  also have "\<dots> \<le> exp 52 ^ 13 * exp 34"
    by (intro mult_mono power_mono exp_52_ge exp_34_ge) simp_all
  also have "\<dots> = exp (710 :: real)"
    by (simp only: exp_of_nat_mult [symmetric] exp_add [symmetric]) simp
  finally show ?thesis .
qed

lemma exp_50_le: "exp (50 :: real) \<le> 2 ^ 73"
proof -
  have "exp (50 :: real) = exp 1 ^ 50"
    using exp_nat [of 50] by simp
  also have "\<dots> \<le> (11 / 4) ^ 50"
    by (rule power_mono [OF exp_1_le]) simp
  also have "\<dots> \<le> (2 :: real) ^ 73"
    by (simp add: power_divide)
  finally show ?thesis .
qed

lemma exp_700_le: "exp (700 :: real) \<le> 2 ^ 1022"
proof -
  have "exp (700 :: real) = exp 50 ^ 14"
    by (simp only: exp_of_nat_mult [symmetric]) simp
  also have "\<dots> \<le> (2 ^ 73) ^ 14"
    by (rule power_mono [OF exp_50_le]) simp
  also have "\<dots> = (2 :: real) ^ 1022"
    by (simp only: power_mult [symmetric]) simp
  finally show ?thesis .
qed

lemma exp_overflows: "710 \<le> x \<Longrightarrow> overflow_bound \<le> exp x"
proof -
  assume "710 \<le> x"
  then have "exp (710 :: real) \<le> exp x"
    by simp
  then show ?thesis
    using exp_710_ge overflow_bound_le by linarith
qed

lemma exp_underflows: "x \<le> - 746 \<Longrightarrow> exp x \<le> underflow_bound"
proof -
  assume "x \<le> - 746"
  then have "exp x \<le> exp (- 746 :: real)"
    by simp
  also have "\<dots> = 1 / exp 746"
    by (simp add: exp_minus inverse_eq_divide)
  also have "\<dots> \<le> 1 / 2 ^ 1075"
    using exp_746_ge by (simp add: frac_le)
  finally show ?thesis
    by (simp add: underflow_bound_def)
qed

lemma exp_in_range:
  assumes "- 700 \<le> x" "x \<le> 700"
  shows "underflow_bound < exp x \<and> exp x < overflow_bound"
proof
  have p: "(2 :: real) ^ 1022 < 2 ^ 1023"
    by (rule power_strict_increasing) simp_all
  have "exp x \<le> exp 700"
    using assms by simp
  then show "exp x < overflow_bound"
    using exp_700_le p overflow_bound_gt by linarith
  have "exp (- x) \<le> exp 700"
    using assms by simp
  then have "exp (- x) < 2 ^ 1023"
    using exp_700_le p by linarith
  then have "1 / 2 ^ 1023 < 1 / exp (- x)"
    by (simp add: frac_less2)
  then show "underflow_bound < exp x"
    using underflow_bound_lt by (simp add: exp_minus inverse_eq_divide)
qed

lemma overflow_bound_gt_2: "2 < overflow_bound"
proof -
  have "(2 :: real) ^ 1 \<le> 2 ^ 1023"
    by (rule power_increasing) simp_all
  then show ?thesis
    using overflow_bound_gt by simp
qed

lemma to_double_Fin: "- overflow_bound < r \<Longrightarrow> r < overflow_bound \<Longrightarrow> to_double r = Fin r"
  by (simp add: to_double_def)

lemma to_double_one_plus: "0 \<le> e \<Longrightarrow> e \<le> 1 \<Longrightarrow> to_double (1 + e) = Fin (1 + e)"
  using overflow_bound_gt_2 by (intro to_double_Fin) linarith+

lemma uexp_bounds: "t \<le> 0 \<Longrightarrow> 0 \<le> uexp t \<and> uexp t \<le> 1"
  by (simp add: uexp_def)

lemma dexp_nonpos: "t \<le> 0 \<Longrightarrow> dexp (Fin t) = Fin (uexp t)"
proof -
  assume "t \<le> 0"
  then have "exp t \<le> 1"
    by simp
  then have "\<not> overflow_bound \<le> exp t"
    using overflow_bound_gt_2 by linarith
  then show ?thesis
    by (simp add: uexp_def)
qed

lemma dexp_to_double_nonpos: "t \<le> 0 \<Longrightarrow> dexp (to_double t) = Fin (uexp t)"
proof (cases "t \<le> - overflow_bound")
  case True
  assume "t \<le> 0"
  have "(746 :: real) \<le> 2 ^ 1023"
    using power_increasing [of 10 1023 "2 :: real"] by simp
  then have "t \<le> - 746"
    using True overflow_bound_gt by linarith
  then have "exp t \<le> underflow_bound"
    by (rule exp_underflows)
  then have u: "uexp t = 0"
    by (simp add: uexp_def)
  have "\<not> overflow_bound \<le> t"
    using \<open>t \<le> 0\<close> overflow_bound_gt_2 by linarith
  then have "to_double t = MInf"
    using True by (simp add: to_double_def)
  with u show ?thesis
    by simp
next
  case False
  assume "t \<le> 0"
  then have "to_double t = Fin t"
    using False overflow_bound_gt_2 by (intro to_double_Fin) linarith+
  then show ?thesis
    using \<open>t \<le> 0\<close> by (simp only: dexp_nonpos)
qed

lemma not_dgt_to_double_nonpos: "t \<le> 0 \<Longrightarrow> \<not> dgt (to_double t) (Fin 0)"
  using overflow_bound_gt_2 by (auto simp: to_double_def)

lemma dlog_one_plus: "0 \<le> e \<Longrightarrow> e \<le> 1 \<Longrightarrow> dlog (dadd (Fin 1) (Fin e)) = Fin (ln (1 + e))"
  by (simp add: to_double_one_plus)

lemma eln_one_plus: "0 \<le> e \<Longrightarrow> e \<le> 1 \<Longrightarrow> eln (dadd (Fin 1) (Fin e)) = Inr (Fin (ln (1 + e)))"
  by (simp add: to_double_one_plus eln_def)

lemma lnSum_gt:
  assumes "y < x"
  shows "lnSum (Fin x) (Fin y) = Inr (to_double (x + ln (1 + uexp (y - x))))"
proof -
  have t: "y - x \<le> 0"
    using assms by simp
  have "eexp (dsub (Fin y) (Fin x)) = Fin (uexp (y - x))"
    using dexp_to_double_nonpos [OF t] by (simp add: eexp_def dsub_def to_double_def)
  moreover have "eln (dadd (Fin 1) (Fin (uexp (y - x)))) = Inr (Fin (ln (1 + uexp (y - x))))"
    using uexp_bounds [OF t] by (intro eln_one_plus) simp_all
  ultimately show ?thesis
    using assms by (simp add: lnSum_def)
qed

lemma lnSum_le:
  assumes "\<not> y < x"
  shows "lnSum (Fin x) (Fin y) = Inr (to_double (y + ln (1 + uexp (x - y))))"
proof -
  have t: "x - y \<le> 0"
    using assms by simp
  have "eexp (dsub (Fin x) (Fin y)) = Fin (uexp (x - y))"
    using dexp_to_double_nonpos [OF t] by (simp add: eexp_def dsub_def to_double_def)
  moreover have "eln (dadd (Fin 1) (Fin (uexp (x - y)))) = Inr (Fin (ln (1 + uexp (x - y))))"
    using uexp_bounds [OF t] by (intro eln_one_plus) simp_all
  ultimately show ?thesis
    using assms by (simp add: lnSum_def)
qed

lemma lnSum_finite:
  "lnSum (Fin x) (Fin y) = Inr (to_double (max x y + ln (1 + uexp (min x y - max x y))))"
  using lnSum_gt [of y x] lnSum_le [of y x] by (cases "y < x") (simp_all add: max_def min_def)

lemma exponent_finite:
  "dsub (dmin (Fin x) (Fin y)) (dmax (Fin x) (Fin y)) = to_double (min x y - max x y) \<and>
   dexp (dsub (dmin (Fin x) (Fin y)) (dmax (Fin x) (Fin y))) = Fin (uexp (min x y - max x y))"
proof -
  have t: "min x y - max x y \<le> 0"
    by (simp add: max_def min_def)
  have d: "dsub (dmin (Fin x) (Fin y)) (dmax (Fin x) (Fin y)) = to_double (min x y - max x y)"
    by (simp add: dmax_def dmin_def dsub_def max_def min_def)
  show ?thesis
    by (simp only: d dexp_to_double_nonpos [OF t])
qed

lemma formula_finite:
  "dadd (dmax (Fin x) (Fin y))
     (dlog (dadd (Fin 1) (dexp (dsub (dmin (Fin x) (Fin y)) (dmax (Fin x) (Fin y)))))) =
   to_double (max x y + ln (1 + uexp (min x y - max x y)))"
proof -
  have t: "min x y - max x y \<le> 0"
    by (simp add: max_def min_def)
  have e: "dexp (dsub (dmin (Fin x) (Fin y)) (dmax (Fin x) (Fin y))) =
      Fin (uexp (min x y - max x y))"
    by (rule exponent_finite [THEN conjunct2])
  have l: "dlog (dadd (Fin 1) (Fin (uexp (min x y - max x y)))) =
      Fin (ln (1 + uexp (min x y - max x y)))"
    using uexp_bounds [OF t] by (intro dlog_one_plus) simp_all
  have m: "dmax (Fin x) (Fin y) = Fin (max x y)"
    by (simp add: dmax_def max_def)
  show ?thesis
    by (subst e, subst l, subst m) (simp only: dadd.simps)
qed

lemma to_double_1: "to_double 1 = Fin 1"
  using to_double_one_plus [of 0] by simp

lemma eln_1: "eln (Fin 1) = Inr (Fin 0)"
  by (simp add: eln_def)

lemma lnSum_general:
  assumes "\<not> isnan a" "\<not> isnan b" "\<not> (a = b \<and> (a = PInf \<or> a = MInf))"
  shows "lnSum a b =
           Inr (dadd (dmax a b) (dlog (dadd (Fin 1) (dexp (dsub (dmin a b) (dmax a b)))))) \<and>
         \<not> dgt (dsub (dmin a b) (dmax a b)) (Fin 0) \<and>
         \<not> dgt (dexp (dsub (dmin a b) (dmax a b))) (Fin 1)"
proof (cases a)
  case NaN
  with assms show ?thesis by simp
next
  case (Fin x)
  show ?thesis
  proof (cases b)
    case NaN
    with assms show ?thesis by simp
  next
    case (Fin y)
    have t: "min x y - max x y \<le> 0"
      by (simp add: max_def min_def)
    have f: "lnSum (Fin x) (Fin y) =
        Inr (dadd (dmax (Fin x) (Fin y))
          (dlog (dadd (Fin 1) (dexp (dsub (dmin (Fin x) (Fin y)) (dmax (Fin x) (Fin y)))))))"
      by (simp only: lnSum_finite formula_finite)
    have d: "\<not> dgt (dsub (dmin (Fin x) (Fin y)) (dmax (Fin x) (Fin y))) (Fin 0)"
      unfolding exponent_finite [THEN conjunct1] by (rule not_dgt_to_double_nonpos [OF t])
    have e: "\<not> dgt (dexp (dsub (dmin (Fin x) (Fin y)) (dmax (Fin x) (Fin y)))) (Fin 1)"
      unfolding exponent_finite [THEN conjunct2] using uexp_bounds [OF t] by simp
    from f d e show ?thesis
      unfolding \<open>a = Fin x\<close> \<open>b = Fin y\<close> by (intro conjI)
  next
    case PInf
    show ?thesis
      unfolding \<open>a = Fin x\<close> \<open>b = PInf\<close>
      by (simp add: lnSum_def dmax_def dmin_def dsub_def eexp_def to_double_1 eln_1)
  next
    case MInf
    show ?thesis
      unfolding \<open>a = Fin x\<close> \<open>b = MInf\<close>
      by (simp add: lnSum_def dmax_def dmin_def dsub_def eexp_def to_double_1 eln_1)
  qed
next
  case PInf
  show ?thesis
  proof (cases b)
    case NaN
    with assms show ?thesis by simp
  next
    case (Fin y)
    show ?thesis
      unfolding \<open>a = PInf\<close> \<open>b = Fin y\<close>
      by (simp add: lnSum_def dmax_def dmin_def dsub_def eexp_def to_double_1 eln_1)
  next
    case PInf
    with \<open>a = PInf\<close> assms show ?thesis by simp
  next
    case MInf
    show ?thesis
      unfolding \<open>a = PInf\<close> \<open>b = MInf\<close>
      by (simp add: lnSum_def dmax_def dmin_def dsub_def eexp_def to_double_1 eln_1)
  qed
next
  case MInf
  show ?thesis
  proof (cases b)
    case NaN
    with assms show ?thesis by simp
  next
    case (Fin y)
    show ?thesis
      unfolding \<open>a = MInf\<close> \<open>b = Fin y\<close>
      by (simp add: lnSum_def dmax_def dmin_def dsub_def eexp_def to_double_1 eln_1)
  next
    case PInf
    show ?thesis
      unfolding \<open>a = MInf\<close> \<open>b = PInf\<close>
      by (simp add: lnSum_def dmax_def dmin_def dsub_def eexp_def to_double_1 eln_1)
  next
    case MInf
    with \<open>a = MInf\<close> assms show ?thesis by simp
  qed
qed

lemma lnSum_equal_infinities: "lnSum PInf PInf = Inr PInf \<and> lnSum MInf MInf = Inr MInf"
  by (simp add: lnSum_def dsub_def eexp_def to_double_1 eln_1)

lemma uexp_underflow: "uexp (- 1000) = 0"
  using exp_underflows [of "- 1000"] by (simp add: uexp_def)

lemma uexp_0: "uexp 0 = 1"
  using underflow_bound_lt by (simp add: uexp_def underflow_bound_def)

lemma to_double_small: "- 1000 \<le> r \<Longrightarrow> r \<le> 1000 \<Longrightarrow> to_double r = Fin r"
proof -
  assume a: "- 1000 \<le> r" "r \<le> 1000"
  have "(1000 :: real) < 2 ^ 1023"
    using power_strict_increasing [of 10 1023 "2 :: real"] by simp
  then have "1000 < overflow_bound"
    using overflow_bound_gt by linarith
  with a show ?thesis
    by (intro to_double_Fin) linarith+
qed

subsection \<open>Decimal numerals\<close>

lemma digits_val_snoc: "digits_val (s @ [c]) = 10 * digits_val s + (of_char c - 48)"
  by (simp add: digits_val_def)

lemma of_char_digit: "d < 10 \<Longrightarrow> (of_char (char_of (48 + d :: nat)) :: nat) = 48 + d"
  by simp

lemma digits_val_to_string: "digits_val (to_string n) = n"
proof (induction n rule: to_string.induct)
  case (1 n)
  show ?case
  proof (cases "n < 10")
    case True
    then show ?thesis
      by (subst to_string.simps) (simp add: digits_val_def)
  next
    case False
    then have "digits_val (to_string (n div 10)) = n div 10"
      using "1" by simp
    with False show ?thesis
      by (subst to_string.simps) (simp add: digits_val_snoc)
  qed
qed

lemma to_string_inj: "to_string m = to_string n \<Longrightarrow> m = n"
  by (metis digits_val_to_string)

lemma to_string_digits: "c \<in> set (to_string n) \<Longrightarrow> isdigit c"
proof (induction n rule: to_string.induct)
  case (1 n)
  show ?case
  proof (cases "n < 10")
    case True
    with "1.prems" show ?thesis
      by (subst (asm) to_string.simps) (simp add: isdigit_def)
  next
    case False
    with "1.prems" have "c \<in> set (to_string (n div 10)) \<or> c = char_of (48 + n mod 10)"
      by (subst (asm) to_string.simps) auto
    then show ?thesis
    proof
      assume "c \<in> set (to_string (n div 10))"
      with False "1.IH" show ?thesis by simp
    next
      assume c: "c = char_of (48 + n mod 10)"
      have "n mod 10 < 10" by simp
      then have "(of_char c :: nat) = 48 + n mod 10"
        unfolding c by (rule of_char_digit)
      then show ?thesis by (simp add: isdigit_def)
    qed
  qed
qed

lemma underscore_not_digit: "\<not> isdigit CHR ''_''"
  by (simp add: isdigit_def)

subsection \<open>Rules for loops\<close>

lemma forLoop_step:
  "i < n \<Longrightarrow> forLoop i n body s = (case body i s of Inl e \<Rightarrow> Inl e | Inr s' \<Rightarrow> forLoop (Suc i) n body s')"
  by (subst forLoop.simps) simp

lemma forLoop_done: "\<not> i < n \<Longrightarrow> forLoop i n body s = Inr s"
  by (subst forLoop.simps) simp

lemma forLoop_rule:
  assumes "P i s" and "i \<le> n"
    and step: "\<And>k t. i \<le> k \<Longrightarrow> k < n \<Longrightarrow> P k t \<Longrightarrow> \<exists>t'. body k t = Inr t' \<and> P (Suc k) t'"
  shows "\<exists>t. forLoop i n body s = Inr t \<and> P n t"
  using assms(1,2) step
proof (induction "n - i" arbitrary: i s)
  case 0
  then have "i = n" by simp
  with "0.prems"(1) show ?case by (simp add: forLoop_done)
next
  case (Suc d)
  then have lt: "i < n" by simp
  from Suc.prems(3) [OF order_refl lt Suc.prems(1)]
  obtain t' where t': "body i s = Inr t'" "P (Suc i) t'" by blast
  have "\<exists>t. forLoop (Suc i) n body t' = Inr t \<and> P n t"
  proof (rule Suc.hyps(1))
    show "d = n - Suc i" using Suc.hyps(2) by simp
    show "P (Suc i) t'" by (rule t'(2))
    show "Suc i \<le> n" using lt by simp
    show "\<exists>t'. body k t = Inr t' \<and> P (Suc k) t'" if "Suc i \<le> k" "k < n" "P k t" for k t
      using Suc.prems(3) [of k t] that by simp
  qed
  then show ?case
    using lt t'(1) by (simp add: forLoop_step)
qed

lemma forLoop_preserves:
  assumes "forLoop i n body s = Inr t" and "P s"
    and step: "\<And>k u u'. k < n \<Longrightarrow> P u \<Longrightarrow> body k u = Inr u' \<Longrightarrow> P u'"
  shows "P t"
  using assms(1,2)
proof (induction "n - i" arbitrary: i s)
  case 0
  then show ?case by (simp add: forLoop_done)
next
  case (Suc d)
  then have lt: "i < n" by simp
  show ?case
  proof (cases "body i s")
    case (Inl e)
    with Suc.prems(1) lt show ?thesis by (simp add: forLoop_step)
  next
    case (Inr s')
    with Suc.prems(1) lt have run: "forLoop (Suc i) n body s' = Inr t"
      by (simp add: forLoop_step)
    have "P s'" using step [OF lt Suc.prems(2) Inr] .
    moreover have "d = n - Suc i" using Suc.hyps(2) by simp
    ultimately show ?thesis using Suc.hyps(1) run by blast
  qed
qed

lemma forLoop_fails:
  assumes "i \<le> k" and "k < n" and "\<And>u. \<exists>e. body k u = Inl e"
  shows "\<exists>e. forLoop i n body s = Inl e"
  using assms(1)
proof (induction "k - i" arbitrary: i s)
  case 0
  then have "i = k" by simp
  with assms(2) assms(3) [of s] show ?case by (auto simp: forLoop_step)
next
  case (Suc d)
  then have lt: "i < n" using assms(2) by simp
  show ?case
  proof (cases "body i s")
    case (Inl e)
    with lt show ?thesis by (simp add: forLoop_step)
  next
    case (Inr s')
    have "\<exists>e. forLoop (Suc i) n body s' = Inl e"
      using Suc.hyps(1) [of "Suc i" s'] Suc.hyps(2) Suc.prems by simp
    with Inr lt show ?thesis by (simp add: forLoop_step)
  qed
qed

subsection \<open>State names\<close>

lemma takeWhile_loc:
  "takeWhile (\<lambda>c. c \<noteq> CHR ''_'') (to_string a @ CHR ''_'' # x) = to_string a"
proof -
  have "\<forall>c \<in> set (to_string a). c \<noteq> CHR ''_''"
    using to_string_digits underscore_not_digit by blast
  then show ?thesis
    by (simp add: takeWhile_append2)
qed

lemma loc_name_eq:
  "to_string a @ CHR ''_'' # x = to_string b @ CHR ''_'' # y \<longleftrightarrow> a = b \<and> x = y"
proof
  assume eq: "to_string a @ CHR ''_'' # x = to_string b @ CHR ''_'' # y"
  then have "to_string a = to_string b"
    using takeWhile_loc [of a x] takeWhile_loc [of b y] by simp
  then have "a = b" by (rule to_string_inj)
  with eq show "a = b \<and> x = y" by simp
qed simp

lemma to_string_eq_iff: "to_string m = to_string n \<longleftrightarrow> m = n"
  using to_string_inj by blast

lemma name_module_state_eq:
  "name (module_state model rd ref i r) = name (module_state model rd ref i' r') \<longleftrightarrow> i = i' \<and> r = r'"
  by (cases r; cases r') (simp_all add: module_state_def mkState_def Let_def loc_name_eq to_string_eq_iff)

lemma names_module_states:
  "name ` set (module_states (module_state model rd ref) i) = (\<lambda>r. name (module_state model rd ref i r)) ` UNIV"
proof -
  have U: "(UNIV :: role set) = {role_SS, role_D, role_I, role_M1, role_M2, role_SE}"
    using role.exhaust by auto
  show ?thesis by (subst U) (simp add: module_states_def)
qed

subsection \<open>The state table and the builder\<close>

lemma add_state_ok:
  "\<not> finalised h \<Longrightarrow> name s \<notin> name ` set (hmm_states h) \<Longrightarrow>
   add_state s h = Inr (h\<lparr>hmm_states := hmm_states h @ [s]\<rparr>)"
  by (simp add: add_state_def)

lemma transition_ok:
  "\<not> finalised h \<Longrightarrow> registered h x \<Longrightarrow> registered h y \<Longrightarrow>
   transition (Inr x) (Inr y) w h = Inr (h\<lparr>hmm_transitions := hmm_transitions h @ [(x, y, w)]\<rparr>)"
  by (simp add: transition_def add_transition_def)

lemma registered_simps:
  "registered h hmm_start" "registered h hmm_end"
  "registered h (Named s) \<longleftrightarrow> name s \<in> name ` set (hmm_states h)"
  by (simp_all add: registered_def)

lemma registered_transitions_update:
  "registered (h\<lparr>hmm_transitions := ts\<rparr>) x = registered h x"
  by (cases x) (simp_all add: registered_def)

lemma length_upd2: "length (upd2 states j i v) = length states"
  by (simp add: upd2_def)

lemma nth_upd2:
  "j < length states \<Longrightarrow>
   upd2 states j i v ! j' = (if j' = j then (states ! j)[i := v] else states ! j')"
  by (simp add: upd2_def nth_list_update)

lemma grid_upd2: "grid n states \<Longrightarrow> j < 6 \<Longrightarrow> grid n (upd2 states j i v)"
  by (simp add: grid_def length_upd2 nth_upd2)

lemma length_nth_upd2: "length (upd2 states j i v ! j') = length (states ! j')"
  by (cases "j < length states") (simp_all add: upd2_def nth_list_update list_update_beyond)

lemma nth_nth_upd2:
  "j < length states \<Longrightarrow> i < length (states ! j) \<Longrightarrow>
   upd2 states j i v ! j' ! i' = (if j' = j \<and> i' = i then v else states ! j' ! i')"
  by (simp add: upd2_def nth_list_update)

lemma grid_length: "grid n states \<Longrightarrow> length states = 6"
  by (simp add: grid_def)

lemma grid_row_length: "grid n states \<Longrightarrow> j < 6 \<Longrightarrow> length (states ! j) = n"
  by (simp add: grid_def)

lemma upd2_same:
  "grid n states \<Longrightarrow> j < 6 \<Longrightarrow> i < n \<Longrightarrow> states ! j ! i = v \<Longrightarrow> upd2 states j i v = states"
proof -
  assume "grid n states" "j < 6" "i < n" and v: "states ! j ! i = v"
  have "(states ! j)[i := v] = states ! j"
    unfolding v [symmetric] by (rule list_update_id)
  then show ?thesis
    by (simp add: upd2_def)
qed

lemma grid_at2:
  "grid n states \<Longrightarrow> j < 6 \<Longrightarrow> i < n \<Longrightarrow> at2 states j i = Inr (Named (states ! j ! i))"
  by (simp add: grid_def at2_def)

lemma addStateCopy_ok:
  assumes "grid n states" "j < 6" "k < n" "meta (states ! j ! k) = fiveMer"
    "\<not> finalised hmm" "name (states ! j ! k) \<notin> name ` set (hmm_states hmm)"
  shows "addStateCopy fiveMer k j (states, hmm) =
           Inr (states, hmm\<lparr>hmm_states := hmm_states hmm @ [states ! j ! k]\<rparr>)"
proof -
  have "(states ! j ! k)\<lparr>meta := fiveMer\<rparr> = states ! j ! k"
    using assms(4) by simp
  then have "upd2 states j k ((states ! j ! k)\<lparr>meta := fiveMer\<rparr>) = states"
    using assms(1-3) by (simp add: upd2_same)
  then show ?thesis
    using assms(5,6) by (simp add: addStateCopy_def add_state_ok)
qed

lemma inner_loop_ok:
  assumes g: "grid n states" and k: "k < n"
    and m: "\<forall>j<6. meta (states ! j ! k) = fiveMer"
    and nf: "\<not> finalised hmm"
    and fresh: "\<forall>j<6. name (states ! j ! k) \<notin> name ` set (hmm_states hmm)"
    and dist: "\<forall>j<6. \<forall>j'<6. name (states ! j ! k) = name (states ! j' ! k) \<longrightarrow> j = j'"
  shows "forLoop 0 6 (addStateCopy fiveMer k) (states, hmm) =
           Inr (states, hmm\<lparr>hmm_states := hmm_states hmm @ map (\<lambda>j. states ! j ! k) [0..<6]\<rparr>)"
proof -
  define P where "P = (\<lambda>j (sh :: State list list \<times> HiddenMarkovModel).
     sh = (states, hmm\<lparr>hmm_states := hmm_states hmm @ map (\<lambda>j. states ! j ! k) [0..<j]\<rparr>))"
  have "\<exists>t. forLoop 0 6 (addStateCopy fiveMer k) (states, hmm) = Inr t \<and> P 6 t"
  proof (rule forLoop_rule)
    show "P 0 (states, hmm)" by (simp add: P_def)
    show "(0::nat) \<le> 6" by simp
    show "\<exists>t'. addStateCopy fiveMer k j t = Inr t' \<and> P (Suc j) t'"
      if "0 \<le> j" "j < 6" "P j t" for j t
    proof -
      let ?h = "hmm\<lparr>hmm_states := hmm_states hmm @ map (\<lambda>j. states ! j ! k) [0..<j]\<rparr>"
      have t: "t = (states, ?h)" using that(3) by (simp add: P_def)
      have "name (states ! j ! k) \<noteq> name (states ! j' ! k)" if "j' < j" for j'
        using dist \<open>j < 6\<close> that by (metis less_trans nat_neq_iff)
      moreover have "name (states ! j ! k) \<notin> name ` set (hmm_states hmm)"
        using fresh \<open>j < 6\<close> by simp
      moreover have "name ` set (hmm_states ?h) =
          name ` set (hmm_states hmm) \<union> (\<lambda>j'. name (states ! j' ! k)) ` {0..<j}"
        by (simp add: image_Un image_image)
      ultimately have "name (states ! j ! k) \<notin> name ` set (hmm_states ?h)"
        by (metis (no_types, lifting) Un_iff atLeastLessThan_iff imageE)
      then have "addStateCopy fiveMer k j (states, ?h) =
          Inr (states, ?h\<lparr>hmm_states := hmm_states ?h @ [states ! j ! k]\<rparr>)"
        using g k m nf that(2) by (intro addStateCopy_ok) simp_all
      then show ?thesis
        unfolding t by (simp add: P_def)
    qed
  qed
  then show ?thesis by (simp add: P_def)
qed

subsection \<open>One module\<close>

lemma upt_0_6: "[0..<6] = [0, 1, 2, 3, 4, 5]"
  by (simp add: upt_rec)

lemma addModule_ok:
  fixes model rd ref
  defines "S \<equiv> module_state model rd ref"
  assumes g: "grid n states" and k: "k < n" and nf: "\<not> finalised hmm"
    and fresh: "\<forall>r. name (S k r) \<notin> name ` set (hmm_states hmm)"
    and nd: "nd ! k = emission model (substr ref k 5)"
  shows "\<exists>states'. addModule p rd ref nd k (states, hmm) =
            Inr (states', hmm\<lparr>hmm_states := hmm_states hmm @ module_states S k,
                             hmm_transitions := hmm_transitions hmm @ internal_transitions p S k\<rparr>) \<and>
          grid n states' \<and>
          (\<forall>j<6. states' ! j ! k = S k (roles ! j)) \<and>
          (\<forall>j<6. \<forall>i<n. i \<noteq> k \<longrightarrow> states' ! j ! i = states ! j ! i)"
proof -
  define states1 where "states1 = upd2 states 0 k (S k role_SS)"
  define states2 where "states2 = upd2 states1 1 k (S k role_D)"
  define states3 where "states3 = upd2 states2 2 k (S k role_I)"
  define states4 where "states4 = upd2 states3 3 k (S k role_M1)"
  define states5 where "states5 = upd2 states4 4 k (S k role_M2)"
  define states6 where "states6 = upd2 states5 5 k (S k role_SE)"
  note defs = states1_def states2_def states3_def states4_def states5_def states6_def
  have g1: "grid n states1" unfolding states1_def using g by (rule grid_upd2) simp
  have g2: "grid n states2" unfolding states2_def using g1 by (rule grid_upd2) simp
  have g3: "grid n states3" unfolding states3_def using g2 by (rule grid_upd2) simp
  have g4: "grid n states4" unfolding states4_def using g3 by (rule grid_upd2) simp
  have g5: "grid n states5" unfolding states5_def using g4 by (rule grid_upd2) simp
  have g6: "grid n states6" unfolding states6_def using g5 by (rule grid_upd2) simp
  note nths = length_upd2 length_nth_upd2 nth_nth_upd2 grid_length [OF g] grid_row_length [OF g]
  have at_k: "states6 ! 0 ! k = S k role_SS" "states6 ! Suc 0 ! k = S k role_D"
    "states6 ! 2 ! k = S k role_I" "states6 ! 3 ! k = S k role_M1"
    "states6 ! 4 ! k = S k role_M2" "states6 ! 5 ! k = S k role_SE"
    unfolding defs using k by (simp_all add: nths)
  have row: "states6 ! j ! k = S k (roles ! j)" if "j < 6" for j
  proof -
    from that have "j = 0 \<or> j = 1 \<or> j = 2 \<or> j = 3 \<or> j = 4 \<or> j = 5" by arith
    then show ?thesis using at_k by (auto simp: roles_def)
  qed
  have other: "states6 ! j ! i = states ! j ! i" if "j < 6" "i < n" "i \<noteq> k" for j i
    unfolding defs using k that by (simp add: nths)
  have metas: "\<forall>j<6. meta (states6 ! j ! k) = substr ref k 5"
  proof (intro allI impI)
    fix j :: nat assume "j < 6"
    then have "states6 ! j ! k = S k (roles ! j)" by (rule row)
    moreover have "meta (S k r) = substr ref k 5" for r
      by (cases r) (simp_all add: S_def module_state_def mkState_def Let_def)
    ultimately show "meta (states6 ! j ! k) = substr ref k 5" by simp
  qed
  have fresh6: "\<forall>j<6. name (states6 ! j ! k) \<notin> name ` set (hmm_states hmm)"
    using fresh row by simp
  have dist6: "\<forall>j<6. \<forall>j'<6. name (states6 ! j ! k) = name (states6 ! j' ! k) \<longrightarrow> j = j'"
  proof (intro allI impI)
    fix j j' :: nat
    assume j: "j < 6" and j': "j' < 6" and eq: "name (states6 ! j ! k) = name (states6 ! j' ! k)"
    then have "roles ! j = roles ! j'"
      using row [OF j] row [OF j'] by (simp add: S_def name_module_state_eq)
    moreover have "distinct roles" by (simp add: roles_def)
    ultimately show "j = j'"
      using j j' by (simp add: nth_eq_iff_index_eq roles_def)
  qed
  let ?h1 = "hmm\<lparr>hmm_states := hmm_states hmm @ map (\<lambda>j. states6 ! j ! k) [0..<6]\<rparr>"
  have inner: "forLoop 0 6 (addStateCopy (substr ref k 5) k) (states6, hmm) = Inr (states6, ?h1)"
    using g6 k metas nf fresh6 dist6 by (rule inner_loop_ok)
  have h1: "?h1 = hmm\<lparr>hmm_states := hmm_states hmm @ module_states S k\<rparr>"
    by (simp add: upt_0_6 at_k module_states_def)
  have at2s: "at2 states6 0 k = Inr (Named (S k role_SS))" "at2 states6 (Suc 0) k = Inr (Named (S k role_D))"
    "at2 states6 2 k = Inr (Named (S k role_I))" "at2 states6 3 k = Inr (Named (S k role_M1))"
    "at2 states6 4 k = Inr (Named (S k role_M2))" "at2 states6 5 k = Inr (Named (S k role_SE))"
    using g6 k at_k by (simp_all add: grid_at2)
  have reg: "registered (h\<lparr>hmm_states := hmm_states hmm @ module_states S k\<rparr>) (Named (S k r))" for r h
    by (cases r) (simp_all add: registered_simps module_states_def)
  have run: "addModule p rd ref nd k (states, hmm) =
      (case forLoop 0 6 (addStateCopy (substr ref k 5) k) (states6, hmm) of
         Inl e \<Rightarrow> Inl e
       | Inr (states', hmm1) \<Rightarrow>
           (case seqE
              [transition (at2 states' 0 k) (at2 states' 3 k) (internalSS2M1 p),
               transition (at2 states' 0 k) (at2 states' 4 k) (internalSS2M2 p),
               transition (at2 states' 1 k) (at2 states' 2 k) (internalD2I p),
               transition (at2 states' 2 k) (at2 states' 2 k) (internalI2I p),
               transition (at2 states' 2 k) (at2 states' 0 k) (internalI2SS p),
               transition (at2 states' 3 k) (at2 states' 3 k) (internalM12M1 p),
               transition (at2 states' 3 k) (at2 states' 5 k) (internalM12SE p),
               transition (at2 states' 4 k) (at2 states' 4 k) (internalM22M2 p),
               transition (at2 states' 4 k) (at2 states' 5 k) (internalM22SE p),
               transition (at2 states' 5 k) (at2 states' 2 k) (internalSE2I p)] hmm1 of
              Inl e \<Rightarrow> Inl e
            | Inr hmm2 \<Rightarrow> Inr (states', hmm2)))"
    by (simp add: addModule_def Let_def defs S_def module_state_def nd)
  have "addModule p rd ref nd k (states, hmm) =
      Inr (states6, hmm\<lparr>hmm_states := hmm_states hmm @ module_states S k,
                       hmm_transitions := hmm_transitions hmm @ internal_transitions p S k\<rparr>)"
    unfolding run inner h1
    by (simp add: at2s transition_ok nf reg registered_transitions_update internal_transitions_def)
  then show ?thesis
    using g6 row other by blast
qed

subsection \<open>The loops of the construction\<close>

lemma distributions_ok:
  assumes "\<forall>i<n. substr ref i 5 \<in> dom model"
  shows "forLoop 0 n (addDistribution model ref) [] =
           Inr (map (\<lambda>i. emission model (substr ref i 5)) [0..<n])"
proof -
  define P where "P = (\<lambda>k nd. nd = map (\<lambda>i. emission model (substr ref i 5)) [0..<k])"
  have "\<exists>t. forLoop 0 n (addDistribution model ref) [] = Inr t \<and> P n t"
  proof (rule forLoop_rule)
    show "P 0 []" by (simp add: P_def)
    show "0 \<le> n" by simp
    show "\<exists>t'. addDistribution model ref k t = Inr t' \<and> P (Suc k) t'"
      if "0 \<le> k" "k < n" "P k t" for k t
    proof -
      from assms that(2) obtain ms where "model (substr ref k 5) = Some ms" by blast
      then show ?thesis
        using that(3) by (simp add: addDistribution_def P_def emission_def)
    qed
  qed
  then show ?thesis by (simp add: P_def)
qed

lemma graph_states_Suc: "graph_states S (Suc n) = graph_states S n @ module_states S n"
  by (simp add: graph_states_def)

lemma names_graph_states:
  "name ` set (graph_states (module_state model rd ref) n) =
     {name (module_state model rd ref i r) | i r. i < n}"
proof (induction n)
  case 0
  show ?case by (simp add: graph_states_def)
next
  case (Suc n)
  have "{name (module_state model rd ref i r) | i r. i < Suc n} =
      {name (module_state model rd ref i r) | i r. i < n} \<union>
      range (\<lambda>r. name (module_state model rd ref n r))"
    by (auto simp: less_Suc_eq)
  then show ?case
    by (simp add: graph_states_Suc image_Un Suc names_module_states)
qed

lemma name_in_graph_states:
  "name (module_state model rd ref i r) \<in> name ` set (graph_states (module_state model rd ref) n)
     \<longleftrightarrow> i < n"
  by (auto simp: names_graph_states name_module_state_eq)

lemma modules_ok:
  fixes model rd ref
  defines "S \<equiv> module_state model rd ref"
  assumes nd: "\<forall>i<n. nd ! i = emission model (substr ref i 5)"
  shows "\<exists>states. forLoop 0 n (addModule p rd ref nd)
            (replicate 6 (replicate n dummy), new_hmm) =
            Inr (states, \<lparr>hmm_states = graph_states S n,
                          hmm_transitions = concat (map (internal_transitions p S) [0..<n]),
                          finalised = False\<rparr>) \<and>
          grid n states \<and> (\<forall>j<6. \<forall>i<n. states ! j ! i = S i (roles ! j))"
proof -
  define P where "P = (\<lambda>k (sh :: State list list \<times> HiddenMarkovModel).
     grid n (fst sh) \<and> (\<forall>j<6. \<forall>i<k. fst sh ! j ! i = S i (roles ! j)) \<and>
     snd sh = \<lparr>hmm_states = graph_states S k,
                hmm_transitions = concat (map (internal_transitions p S) [0..<k]),
                finalised = False\<rparr>)"
  have "\<exists>t. forLoop 0 n (addModule p rd ref nd) (replicate 6 (replicate n dummy), new_hmm) = Inr t
          \<and> P n t"
  proof (rule forLoop_rule)
    show "P 0 (replicate 6 (replicate n dummy), new_hmm)"
      by (simp add: P_def grid_def new_hmm_def graph_states_def)
    show "0 \<le> n" by simp
    show "\<exists>t'. addModule p rd ref nd k t = Inr t' \<and> P (Suc k) t'"
      if "0 \<le> k" "k < n" "P k t" for k t
    proof -
      obtain states hmm where t: "t = (states, hmm)" by (cases t)
      from that(3) have g: "grid n states"
        and old: "\<forall>j<6. \<forall>i<k. states ! j ! i = S i (roles ! j)"
        and hmm: "hmm = \<lparr>hmm_states = graph_states S k,
                hmm_transitions = concat (map (internal_transitions p S) [0..<k]),
                finalised = False\<rparr>"
        by (simp_all add: P_def t)
      have nf: "\<not> finalised hmm" by (simp add: hmm)
      have fresh: "\<forall>r. name (S k r) \<notin> name ` set (hmm_states hmm)"
        by (simp add: hmm S_def name_in_graph_states)
      have ndk: "nd ! k = emission model (substr ref k 5)"
        using nd that(2) by simp
      from addModule_ok [OF g that(2) nf fresh [unfolded S_def] ndk, of p, folded S_def]
      obtain states' where
        run: "addModule p rd ref nd k (states, hmm) =
            Inr (states', hmm\<lparr>hmm_states := hmm_states hmm @ module_states S k,
                             hmm_transitions := hmm_transitions hmm @ internal_transitions p S k\<rparr>)"
        and g': "grid n states'"
        and new: "\<forall>j<6. states' ! j ! k = S k (roles ! j)"
        and same: "\<forall>j<6. \<forall>i<n. i \<noteq> k \<longrightarrow> states' ! j ! i = states ! j ! i"
        by blast
      have "states' ! j ! i = S i (roles ! j)" if "j < 6" "i < Suc k" for j i
      proof (cases "i = k")
        case True
        then show ?thesis using new that(1) by simp
      next
        case False
        then have "i < k" using that(2) by simp
        then show ?thesis using same old that(1) \<open>k < n\<close> False by simp
      qed
      then show ?thesis
        unfolding t run using g' by (simp add: P_def hmm graph_states_Suc)
    qed
  qed
  then show ?thesis by (auto simp: P_def)
qed

lemma role_of_row:
  "roles ! 0 = role_SS" "roles ! Suc 0 = role_D" "roles ! 2 = role_I"
  "roles ! 3 = role_M1" "roles ! 4 = role_M2" "roles ! 5 = role_SE"
  by (simp_all add: roles_def)

lemma externals_ok:
  fixes model rd ref
  defines "S \<equiv> module_state model rd ref"
  assumes g: "grid n states" and st: "\<forall>j<6. \<forall>i<n. states ! j ! i = S i (roles ! j)"
    and m: "m < n"
  shows "forLoop 0 m (addExternal p states)
            \<lparr>hmm_states = graph_states S n, hmm_transitions = ts, finalised = False\<rparr> =
          Inr \<lparr>hmm_states = graph_states S n,
               hmm_transitions = ts @ concat (map (external_transitions p S) [0..<m]),
               finalised = False\<rparr>"
proof -
  define P where "P = (\<lambda>k h. h = \<lparr>hmm_states = graph_states S n,
               hmm_transitions = ts @ concat (map (external_transitions p S) [0..<k]),
               finalised = False\<rparr>)"
  have "\<exists>t. forLoop 0 m (addExternal p states)
            \<lparr>hmm_states = graph_states S n, hmm_transitions = ts, finalised = False\<rparr> = Inr t \<and> P m t"
  proof (rule forLoop_rule)
    show "P 0 \<lparr>hmm_states = graph_states S n, hmm_transitions = ts, finalised = False\<rparr>"
      by (simp add: P_def)
    show "0 \<le> m" by simp
    show "\<exists>t'. addExternal p states k t = Inr t' \<and> P (Suc k) t'"
      if "0 \<le> k" "k < m" "P k t" for k t
    proof -
      have k: "k < n" "Suc k < n" using that(2) m by simp_all
      have at2s: "at2 states j i = Inr (Named (S i (roles ! j)))" if "j < 6" "i < n" for j i
        using g st that by (simp add: grid_at2)
      have reg: "registered \<lparr>hmm_states = graph_states S n, hmm_transitions = us, finalised = False\<rparr>
             (Named (S i r))" if "i < n" for i r us
        using that by (simp add: registered_simps S_def name_in_graph_states)
      show ?thesis
        using that(3) k
        by (simp add: P_def addExternal_def at2s role_of_row transition_ok reg
            external_transitions_def)
    qed
  qed
  then show ?thesis by (simp add: P_def)
qed

lemma buildHMM_ok:
  fixes model rd refSeqMapped
  defines "S \<equiv> module_state model rd refSeqMapped"
  assumes len: "6 \<le> length refSeqMapped"
    and kmers: "\<forall>i<length refSeqMapped - 5. substr refSeqMapped i 5 \<in> dom model"
  shows "buildHMM p model rd refSeqMapped =
           Inr \<lparr>hmm_states = graph_states S (length refSeqMapped - 5),
                hmm_transitions =
                  concat (map (internal_transitions p S) [0..<length refSeqMapped - 5]) @
                  concat (map (external_transitions p S) [0..<length refSeqMapped - 6]) @
                  start_transitions S @ end_transitions p S (length refSeqMapped - 6),
                finalised = True\<rparr>"
proof -
  define n where "n = length refSeqMapped - 5"
  define m where "m = length refSeqMapped - 6"
  have n: "0 < n" "size_t_sub (length refSeqMapped) 6 = m" "\<not> length refSeqMapped < 5" "m < n"
    using len by (simp_all add: n_def m_def size_t_sub_def)
  let ?nd = "map (\<lambda>i. emission model (substr refSeqMapped i 5)) [0..<n]"
  have l1: "forLoop 0 n (addDistribution model refSeqMapped) [] = Inr ?nd"
    using kmers unfolding n_def by (rule distributions_ok)
  have "\<forall>i<n. ?nd ! i = emission model (substr refSeqMapped i 5)" by simp
  from modules_ok [OF this, of p rd, folded S_def]
  obtain states where
    l2: "forLoop 0 n (addModule p rd refSeqMapped ?nd)
            (replicate 6 (replicate n (mkState NullDistribution [] [] [] (Fin 1))), new_hmm) =
          Inr (states, \<lparr>hmm_states = graph_states S n,
                        hmm_transitions = concat (map (internal_transitions p S) [0..<n]),
                        finalised = False\<rparr>)"
    and g: "grid n states" and st: "\<forall>j<6. \<forall>i<n. states ! j ! i = S i (roles ! j)"
    by blast
  have l3: "forLoop 0 m (addExternal p states)
            \<lparr>hmm_states = graph_states S n,
             hmm_transitions = concat (map (internal_transitions p S) [0..<n]),
             finalised = False\<rparr> =
          Inr \<lparr>hmm_states = graph_states S n,
               hmm_transitions = concat (map (internal_transitions p S) [0..<n]) @
                 concat (map (external_transitions p S) [0..<m]),
               finalised = False\<rparr>"
    using g st [unfolded S_def] n(4) unfolding S_def by (intro externals_ok) simp_all
  have at2s: "at2 states j i = Inr (Named (S i (roles ! j)))" if "j < 6" "i < n" for j i
    using g st that by (simp add: grid_at2)
  have reg: "registered \<lparr>hmm_states = graph_states S n, hmm_transitions = us, finalised = False\<rparr>
         (Named (S i r))" if "i < n" for i r us
    using that by (simp add: registered_simps S_def name_in_graph_states)
  show ?thesis
    unfolding buildHMM_def Let_def m_def [symmetric] n_def [symmetric]
    using n(1,4)
    by (simp add: n(2,3) l1 l2 l3 at2s role_of_row transition_ok reg registered_simps(1,2)
        finalise_def start_transitions_def end_transitions_def)
qed

subsection \<open>The bounds check on words\<close>

lemma sint_32: "sint (w :: 32 word) = (if uint w < 2 ^ 31 then uint w else uint w - 2 ^ 32)"
proof -
  have r: "0 \<le> uint w" "uint w < 2 ^ 32"
    using uint_lt2p [of w] by simp_all
  have "sint w = take_bit 32 (uint w + 2 ^ 31) - 2 ^ 31"
    by (simp add: sint_uint signed_take_bit_eq_take_bit_shift)
  also have "\<dots> = (uint w + 2 ^ 31) mod 2 ^ 32 - 2 ^ 31"
    by (simp add: take_bit_eq_mod)
  also have "\<dots> = (if uint w < 2 ^ 31 then uint w else uint w - 2 ^ 32)"
  proof (cases "uint w < 2 ^ 31")
    case True
    then have "(uint w + 2 ^ 31) mod 2 ^ 32 = uint w + 2 ^ 31"
      using r by (intro mod_pos_pos_trivial) simp_all
    with True show ?thesis by simp
  next
    case False
    then have "(uint w + 2 ^ 31) mod 2 ^ 32 = uint w + 2 ^ 31 - 2 ^ 32"
      using r by (intro int_mod_pos_eq [where q = 1]) simp_all
    with False show ?thesis by simp
  qed
  finally show ?thesis .
qed

lemma guard_signed:
  fixes lo hi pos :: "32 word"
  assumes "lo \<le> pos" "pos < hi" "sint lo < 0 \<or> 0 \<le> sint hi"
  shows "sint lo \<le> sint pos \<and> sint pos < sint hi"
proof -
  have r: "uint lo \<le> uint pos" "uint pos < uint hi"
    using assms(1,2) by (simp_all add: word_le_def word_less_def)
  have b: "uint hi < 2 ^ 32" "0 \<le> uint lo"
    using uint_lt2p [of hi] by simp_all
  show ?thesis
    using r b assms(3) by (auto simp: sint_32 split: if_splits)
qed

subsection \<open>The pool stays within the bounds\<close>

lemma keys_push_back_at: "fst ` set (push_back_at k v m) = insert k (fst ` set m)"
  by (induction k v m rule: push_back_at.induct) auto

lemma poolEvent_within_bounds:
  assumes "sint (boundLower trainArgs) < 0 \<or> 0 \<le> sint (boundUpper trainArgs)"
    and "within_bounds trainArgs pile"
    and "poolEvent env trainArgs path events i pile = Inr pile'"
  shows "within_bounds trainArgs pile'"
proof (cases "i < length path")
  case False
  with assms(3) show ?thesis by (simp add: poolEvent_def)
next
  case True
  show ?thesis
  proof (cases "split env (name (path ! i)) CHR ''_''")
    case Nil
    with True assms(3) show ?thesis by (simp add: poolEvent_def)
  next
    case (Cons f fs)
    define pos :: "32 word" where "pos = word_of_int (atoi f)"
    show ?thesis
    proof (cases "boundLower trainArgs \<le> pos \<and> pos < boundUpper trainArgs")
      case False
      with True Cons assms(2,3) show ?thesis
        by (auto simp: poolEvent_def Let_def pos_def)
    next
      case inside: True
      then have "sint (boundLower trainArgs) \<le> sint pos \<and> sint pos < sint (boundUpper trainArgs)"
        using assms(1) by (intro guard_signed) simp_all
      moreover have "pile' = push_back_at (sint pos) (events ! i) pile"
        using True Cons inside assms(3) by (simp add: poolEvent_def Let_def pos_def)
      ultimately show ?thesis
        using assms(2) by (simp add: within_bounds_def keys_push_back_at)
    qed
  qed
qed

lemma poolEvents_within_bounds:
  assumes "sint (boundLower trainArgs) < 0 \<or> 0 \<le> sint (boundUpper trainArgs)"
    and "within_bounds trainArgs pile"
    and "poolEvents env trainArgs path events pile = Inr pile'"
  shows "within_bounds trainArgs pile'"
  using assms(3) [unfolded poolEvents_def] assms(2)
  by (rule forLoop_preserves) (rule poolEvent_within_bounds [OF assms(1)])

lemma processRead_within_bounds:
  assumes "sint (boundLower trainArgs) < 0 \<or> 0 \<le> sint (boundUpper trainArgs)"
    and "within_bounds trainArgs (eventPileup st)"
    and "processRead env trainArgs model reference rd st = Inr st'"
  shows "within_bounds trainArgs (eventPileup st')"
  using assms(2,3) poolEvents_within_bounds [OF assms(1,2)]
  by (auto simp: processRead_def Let_def split: if_splits sum.splits)

lemma alignReads_within_bounds:
  assumes "sint (boundLower trainArgs) < 0 \<or> 0 \<le> sint (boundUpper trainArgs)"
    and "within_bounds trainArgs (eventPileup st)"
    and "alignReads env trainArgs model reference reads st = Inr st'"
  shows "within_bounds trainArgs (eventPileup st')"
  using assms(2,3)
proof (induction reads arbitrary: st)
  case Nil
  then show ?case by simp
next
  case (Cons rd reads)
  from Cons.prems(2) obtain st1 where
    one: "processRead env trainArgs model reference rd st = Inr st1"
    and rest: "alignReads env trainArgs model reference reads st1 = Inr st'"
    by (auto split: sum.splits)
  have "within_bounds trainArgs (eventPileup st1)"
    using assms(1) Cons.prems(1) one by (rule processRead_within_bounds)
  then show ?case
    using rest by (rule Cons.IH)
qed

subsection \<open>The pooling loop and the length of the path\<close>

lemma forLoop_split:
  assumes "i \<le> m" "m \<le> n"
  shows "forLoop i n body s =
           (case forLoop i m body s of Inl e \<Rightarrow> Inl e | Inr t \<Rightarrow> forLoop m n body t)"
  using assms(1)
proof (induction "m - i" arbitrary: i s)
  case 0
  then show ?case by (simp add: forLoop_done)
next
  case (Suc d)
  then have lt: "i < m" "i < n" using assms(2) by simp_all
  show ?case
  proof (cases "body i s")
    case (Inl e)
    with lt show ?thesis by (simp add: forLoop_step)
  next
    case (Inr s')
    have "forLoop (Suc i) n body s' =
        (case forLoop (Suc i) m body s' of Inl e \<Rightarrow> Inl e | Inr t \<Rightarrow> forLoop m n body t)"
      using Suc.hyps(1) [of "Suc i" s'] Suc.hyps(2) lt by simp
    with Inr lt show ?thesis by (simp add: forLoop_step)
  qed
qed

lemma poolEvent_succeeds:
  assumes "i < length path" "split env (name (path ! i)) CHR ''_'' \<noteq> []"
  shows "\<exists>pile'. poolEvent env trainArgs path events i pile = Inr pile'"
  using assms by (cases "split env (name (path ! i)) CHR ''_''") (simp_all add: poolEvent_def Let_def)

lemma poolEvent_out_of_bounds:
  "\<not> i < length path \<Longrightarrow>
   poolEvent env trainArgs path events i pile = Inl (OutOfBounds ''emittingStatePath'')"
  by (simp add: poolEvent_def)

lemma poolEvents_prefix_succeeds:
  assumes "m \<le> length path" "\<forall>i<m. split env (name (path ! i)) CHR ''_'' \<noteq> []"
  shows "\<exists>pile'. forLoop 0 m (poolEvent env trainArgs path events) pile = Inr pile'"
proof -
  have "\<exists>t. forLoop 0 m (poolEvent env trainArgs path events) pile = Inr t \<and> True"
  proof (rule forLoop_rule [where P = "\<lambda>_ _. True"])
    show "\<exists>t'. poolEvent env trainArgs path events k t = Inr t' \<and> True"
      if "0 \<le> k" "k < m" for k t
      using poolEvent_succeeds [of k path env trainArgs events t] assms that by simp
  qed simp_all
  then show ?thesis by simp
qed

lemma poolEvents_needs_path:
  assumes "poolEvents env trainArgs path events pile = Inr pile'"
  shows "length events \<le> length path"
proof (rule ccontr)
  assume "\<not> length events \<le> length path"
  then have "length path < length events" by simp
  moreover have "\<exists>e. poolEvent env trainArgs path events (length path) u = Inl e" for u
    by (simp add: poolEvent_out_of_bounds)
  ultimately have "\<exists>e. forLoop 0 (length events) (poolEvent env trainArgs path events) pile = Inl e"
    by (intro forLoop_fails [where k = "length path"]) simp_all
  with assms show False by (simp add: poolEvents_def)
qed

lemma poolEvents_short_path:
  assumes "length path < length events"
    and "\<forall>i<length path. split env (name (path ! i)) CHR ''_'' \<noteq> []"
  shows "poolEvents env trainArgs path events pile = Inl (OutOfBounds ''emittingStatePath'')"
proof -
  obtain t where t: "forLoop 0 (length path) (poolEvent env trainArgs path events) pile = Inr t"
    using poolEvents_prefix_succeeds [OF order_refl assms(2)] by blast
  have "forLoop (length path) (length events) (poolEvent env trainArgs path events) t =
      Inl (OutOfBounds ''emittingStatePath'')"
    using assms(1) by (simp add: forLoop_step poolEvent_out_of_bounds)
  moreover have "forLoop 0 (length events) (poolEvent env trainArgs path events) pile =
      (case forLoop 0 (length path) (poolEvent env trainArgs path events) pile of
         Inl e \<Rightarrow> Inl e
       | Inr t \<Rightarrow> forLoop (length path) (length events) (poolEvent env trainArgs path events) t)"
    using assms(1) by (intro forLoop_split) simp_all
  ultimately show ?thesis
    using t by (simp add: poolEvents_def)
qed

lemma poolEvents_long_path:
  assumes "length events \<le> length path"
    and "\<forall>i<length events. split env (name (path ! i)) CHR ''_'' \<noteq> []"
  shows "\<exists>pile'. poolEvents env trainArgs path events pile = Inr pile'"
  unfolding poolEvents_def using assms by (rule poolEvents_prefix_succeeds)

subsection \<open>The loop over the pool\<close>

lemma fst_lookup_or_insert: "fst (lookup_or_insert m k) = lookup_default m k"
  by (simp add: lookup_or_insert_def lookup_default_def split: option.splits)

lemma lookup_default_after_insert:
  "lookup_default (snd (lookup_or_insert m k)) k' = lookup_default m k'"
  by (simp add: lookup_or_insert_def lookup_default_def split: option.splits)

lemma lookup_or_insert_twice:
  "lookup_or_insert (snd (lookup_or_insert m k)) k =
     (lookup_default m k, snd (lookup_or_insert m k))"
  by (simp add: lookup_or_insert_def lookup_default_def split: option.splits)

lemma fitPosition_ok:
  assumes same: "\<forall>k. lookup_default (FiveMer_model io) k = lookup_default model k"
    and ok: "fit_settles env model reference (key, events)"
  shows "\<exists>io'. fitPosition env reference key events io = Inr io' \<and>
           outFile io' = outFile io @ rows_of env model reference (key, events) \<and>
           (\<forall>k. lookup_default (FiveMer_model io') k = lookup_default model k)"
proof -
  define fiveMer where "fiveMer = substr reference (nat key) 5"
  have sub: "substr_from reference key 5 = Inr fiveMer"
    using ok by (simp add: fit_settles_def substr_from_def fiveMer_def)
  define model2 where "model2 = snd (lookup_or_insert (FiveMer_model io) fiveMer)"
  have l1: "lookup_or_insert (FiveMer_model io) fiveMer = (lookup_default model fiveMer, model2)"
    using same by (simp add: model2_def prod_eq_iff fst_lookup_or_insert)
  have l2: "lookup_or_insert model2 fiveMer = (lookup_default model fiveMer, model2)"
    using same by (simp add: model2_def lookup_or_insert_twice)
  have same2: "\<forall>k. lookup_default model2 k = lookup_default model k"
    using same by (simp add: model2_def lookup_default_after_insert)
  show ?thesis
  proof (cases "fit env model fiveMer events")
    case (Inl e)
    then have "e = NegativeLog"
      using ok by (simp add: fit_settles_def fiveMer_def)
    with Inl show ?thesis
      using same2
      by (simp add: fitPosition_def sub l1 l2 Let_def fit_def rows_of_def fiveMer_def [symmetric])
  next
    case (Inr fitParameters)
    then have "6 \<le> length fitParameters"
      using ok by (simp add: fit_settles_def fiveMer_def)
    with Inr show ?thesis
      using same2
      by (simp add: fitPosition_def sub l1 l2 Let_def fit_def rows_of_def record_of_def
          fiveMer_def [symmetric])
  qed
qed

lemma fitPositions_ok:
  assumes "\<forall>k. lookup_default (FiveMer_model io) k = lookup_default model k"
    and "\<forall>entry \<in> set pile. fit_settles env model reference entry"
  shows "\<exists>io'. fitPositions env reference pile io = Inr io' \<and>
           outFile io' = outFile io @ concat (map (rows_of env model reference) pile)"
  using assms
proof (induction pile arbitrary: io)
  case Nil
  then show ?case by simp
next
  case (Cons entry pile)
  obtain key events where entry: "entry = (key, events)" by (cases entry)
  from Cons.prems have "fit_settles env model reference (key, events)"
    by (simp add: entry)
  from fitPosition_ok [OF Cons.prems(1) this]
  obtain io1 where one: "fitPosition env reference key events io = Inr io1"
    and out1: "outFile io1 = outFile io @ rows_of env model reference (key, events)"
    and same1: "\<forall>k. lookup_default (FiveMer_model io1) k = lookup_default model k"
    by blast
  from Cons.IH [OF same1] Cons.prems(2)
  obtain io' where rest: "fitPositions env reference pile io1 = Inr io'"
    and out': "outFile io' = outFile io1 @ concat (map (rows_of env model reference) pile)"
    by auto
  show ?case
    by (simp add: entry one rest out' out1)
qed

subsection \<open>The sample inputs evaluated\<close>

lemma sample_kmers:
  "\<forall>i<length ''AAAAAAA'' - 5. substr ''AAAAAAA'' i 5 \<in> dom sample_model"
  by (simp add: substr_def sample_model_def less_Suc_eq numeral_2_eq_2)

lemma to_string_10: "to_string 10 = ''10''" "to_string 11 = ''11''"
  by code_simp+

lemma sample_buildHMM:
  "\<exists>hmm. buildHMM sample_pore sample_model sample_read ''AAAAAAA'' = Inr hmm \<and>
     map name (hmm_states hmm) =
       [''10_SS'', ''10_D'', ''10_I'', ''10_M1'', ''10_M2'', ''10_SE'',
        ''11_SS'', ''11_D'', ''11_I'', ''11_M1'', ''11_M2'', ''11_SE'']"
proof -
  have "(6::nat) \<le> length ''AAAAAAA''" by simp
  from buildHMM_ok [OF this sample_kmers, of sample_pore sample_read]
  show ?thesis
    by (simp add: graph_states_def module_states_def module_state_def mkState_def Let_def
        sample_read_def upt_rec to_string_10)
qed

lemma sample_path:
  "\<exists>hmm a b c d. buildHMM sample_pore sample_model sample_read ''AAAAAAA'' = Inr hmm \<and>
     viterbi (sample_env q) hmm obs = Inr (Fin 0, [a, b, c, d]) \<and>
     name a = ''10_SS'' \<and> name b = ''10_M1'' \<and> name c = ''10_SE'' \<and> name d = ''11_D''"
proof -
  from sample_buildHMM obtain hmm where
    hh: "buildHMM sample_pore sample_model sample_read ''AAAAAAA'' = Inr hmm \<and>
     map name (hmm_states hmm) =
       [''10_SS'', ''10_D'', ''10_I'', ''10_M1'', ''10_M2'', ''10_SE'',
        ''11_SS'', ''11_D'', ''11_I'', ''11_M1'', ''11_M2'', ''11_SE'']" ..
  then have h: "buildHMM sample_pore sample_model sample_read ''AAAAAAA'' = Inr hmm"
    and names: "map name (hmm_states hmm) =
       [''10_SS'', ''10_D'', ''10_I'', ''10_M1'', ''10_M2'', ''10_SE'',
        ''11_SS'', ''11_D'', ''11_I'', ''11_M1'', ''11_M2'', ''11_SE'']"
    by (rule conjunct1, rule conjunct2)
  have "length (map name (hmm_states hmm)) = 12"
    unfolding names by simp
  then have len: "length (hmm_states hmm) = 12"
    by simp
  have nm: "name (hmm_states hmm ! i) =
      [''10_SS'', ''10_D'', ''10_I'', ''10_M1'', ''10_M2'', ''10_SE'',
       ''11_SS'', ''11_D'', ''11_I'', ''11_M1'', ''11_M2'', ''11_SE''] ! i" if "i < 12" for i
  proof -
    have "map name (hmm_states hmm) ! i = name (hmm_states hmm ! i)"
      using that len by (intro nth_map) simp
    then show ?thesis unfolding names by simp
  qed
  have v: "viterbi (sample_env q) hmm obs =
      Inr (Fin 0, [hmm_states hmm ! 0, hmm_states hmm ! 3, hmm_states hmm ! 5, hmm_states hmm ! 7])"
    using len by (simp add: sample_env_def)
  have m: "name (hmm_states hmm ! 0) = ''10_SS''" "name (hmm_states hmm ! 3) = ''10_M1''"
    "name (hmm_states hmm ! 5) = ''10_SE''" "name (hmm_states hmm ! 7) = ''11_D''"
    by (simp_all add: nm)
  show ?thesis
    by (intro exI conjI) (rule h, rule v, (rule m)+)
qed

lemma sample_tags:
  "tag ''10_SS'' = ''S''" "tag ''10_M1'' = ''M''" "tag ''10_SE'' = ''S''" "tag ''11_D'' = ''D''"
  by (simp_all add: tag_def find_char_def substr_def)

lemma atoi_10: "atoi ''10'' = 10"
  by (simp add: atoi_def isspace_def isdigit_def digits_val_def)

lemma sample_pooling:
  assumes "name s = ''10_M1''"
  shows "poolEvents (sample_env q) (sample_args lo hi) [s] [v] pile =
         Inr (if lo \<le> 10 \<and> 10 < hi then push_back_at 10 v pile else pile)"
  using assms
  by (simp add: poolEvents_def forLoop_step forLoop_done poolEvent_def sample_env_def
      sample_args_def atoi_10 Let_def)

lemma sample_processRead:
  "processRead (sample_env (Fin 0)) (sample_args lo hi) sample_model sample_reference sample_read
     \<lparr>eventPileup = [], prog = 0\<rparr> =
   Inr \<lparr>eventPileup = (if lo \<le> 10 \<and> 10 < hi then [(10, [Fin 80])] else []), prog = 1\<rparr>"
proof -
  from sample_path [of "Fin 0" "[Fin 80]"] obtain hmm a b c d where
    h: "buildHMM sample_pore sample_model sample_read ''AAAAAAA'' = Inr hmm"
    and v: "viterbi (sample_env (Fin 0)) hmm [Fin 80] = Inr (Fin 0, [a, b, c, d])"
    and n: "name a = ''10_SS''" "name b = ''10_M1''" "name c = ''10_SE''" "name d = ''11_D''"
    by (elim exE conjE)
  have e: "filter emitting [a, b, c, d] = [b]"
    by (simp add: emitting_def n sample_tags)
  have ne: "normaliseEvents (sample_env (Fin 0)) sample_read =
      \<lparr>normalisedEvents = [Fin 80], qualityScore = Fin 0\<rparr>"
    by (simp add: sample_env_def sample_read_def)
  have sub: "substr_from sample_reference (fst (ROIbounds sample_read))
      (snd (ROIbounds sample_read) - fst (ROIbounds sample_read)) = Inr ''AAAAAAA''"
    by (simp add: substr_from_def substr_def sample_reference_def sample_read_def)
  have p: "pore (sample_env (Fin 0)) = sample_pore"
    by (simp add: sample_env_def)
  show ?thesis
    by (simp add: processRead_def Let_def ne sub p h v e sample_pooling [OF n(2)]
        del: filter.simps)
qed

subsection \<open>Counting states and rows\<close>

lemma length_graph_states: "length (graph_states S n) = 6 * n"
  by (induction n) (simp_all add: graph_states_def module_states_def)

lemma distinct_graph_names:
  "distinct (map name (graph_states (module_state model rd ref) n))"
proof (induction n)
  case 0
  show ?case by (simp add: graph_states_def)
next
  case (Suc n)
  have "distinct (map name (module_states (module_state model rd ref) n))"
    by (simp add: module_states_def name_module_state_eq)
  moreover have "name ` set (graph_states (module_state model rd ref) n) \<inter>
      name ` set (module_states (module_state model rd ref) n) = {}"
    by (auto simp: names_graph_states names_module_states name_module_state_eq)
  ultimately show ?case
    using Suc by (simp add: graph_states_Suc)
qed

lemma count_record_of: "count_list (record_of model fiveMer fitParameters) Endl = 1"
  by (simp add: record_of_def tab_def)

lemma count_rows:
  "count_list (concat (map (rows_of env model reference) pile)) Endl =
     length (filter (fit_succeeds env model reference) pile)"
proof (induction pile)
  case Nil
  show ?case by simp
next
  case (Cons entry pile)
  have "count_list (rows_of env model reference entry) Endl =
      (if fit_succeeds env model reference entry then 1 else 0)"
    by (simp add: rows_of_def fit_succeeds_def Let_def count_record_of split: sum.splits)
  with Cons show ?case by simp
qed

subsection \<open>The pool stays in ascending order of its keys\<close>

lemma sorted_push_back_at:
  "sorted_wrt (<) (map fst m) \<Longrightarrow> sorted_wrt (<) (map fst (push_back_at k v m))"
proof (induction k v m rule: push_back_at.induct)
  case (1 k v)
  show ?case by simp
next
  case (2 k v k' vs rest)
  then show ?case
    using keys_push_back_at [of k v rest] by (auto simp: image_iff)
qed

section \<open>Properties of the log-space primitives\<close>

text \<open>
  Claim C2. \<open>lnSum\<close> returns the zero sentinel NaN when both operands are the sentinel,
  the other operand when exactly one is, and otherwise the larger operand plus the
  logarithm of one plus the exponential of the smaller operand minus the larger one, each
  operation being the one of doubles. The larger operand is the one subtracted: the
  argument of the exponential is never positive, so the exponential is at most one and
  cannot overflow, while it can underflow to zero. It never throws. Two equal infinities,
  whose difference is NaN, give that infinity. For finite operands the result is the real
  number \<open>max x y + ln (1 + e)\<close>, rounded to an infinity only if it leaves the range, where
  \<open>e\<close> is the exponential of \<open>min x y - max x y\<close> or zero when that underflows.
\<close>

theorem lnSum_cases:
  "lnSum NaN NaN = Inr NaN \<and>
   (\<not> isnan b \<longrightarrow> lnSum NaN b = Inr b) \<and>
   (\<not> isnan a \<longrightarrow> lnSum a NaN = Inr a) \<and>
   (\<not> isnan a \<and> \<not> isnan b \<and> \<not> (a = b \<and> (a = PInf \<or> a = MInf)) \<longrightarrow>
      lnSum a b =
        Inr (dadd (dmax a b) (dlog (dadd (Fin 1) (dexp (dsub (dmin a b) (dmax a b)))))) \<and>
      \<not> dgt (dsub (dmin a b) (dmax a b)) (Fin 0) \<and>
      \<not> dgt (dexp (dsub (dmin a b) (dmax a b))) (Fin 1)) \<and>
   lnSum PInf PInf = Inr PInf \<and>
   lnSum MInf MInf = Inr MInf \<and>
   lnSum (Fin x) (Fin y) = Inr (to_double (max x y + ln (1 + uexp (min x y - max x y))))"
proof (intro conjI impI)
  show "lnSum NaN NaN = Inr NaN"
    by (simp add: lnSum_def)
  show "lnSum NaN b = Inr b" if "\<not> isnan b"
    using that by (simp add: lnSum_def)
  show "lnSum a NaN = Inr a" if "\<not> isnan a"
    using that by (simp add: lnSum_def)
  show "lnSum PInf PInf = Inr PInf" "lnSum MInf MInf = Inr MInf"
    by (simp_all only: lnSum_equal_infinities)
  show "lnSum (Fin x) (Fin y) = Inr (to_double (max x y + ln (1 + uexp (min x y - max x y))))"
    by (rule lnSum_finite)
next
  assume h: "\<not> isnan a \<and> \<not> isnan b \<and> \<not> (a = b \<and> (a = PInf \<or> a = MInf))"
  then have g: "lnSum a b =
           Inr (dadd (dmax a b) (dlog (dadd (Fin 1) (dexp (dsub (dmin a b) (dmax a b)))))) \<and>
         \<not> dgt (dsub (dmin a b) (dmax a b)) (Fin 0) \<and>
         \<not> dgt (dexp (dsub (dmin a b) (dmax a b))) (Fin 1)"
    by (intro lnSum_general) simp_all
  from g show "lnSum a b =
      Inr (dadd (dmax a b) (dlog (dadd (Fin 1) (dexp (dsub (dmin a b) (dmax a b))))))"
    by (rule conjunct1)
  from g show "\<not> dgt (dsub (dmin a b) (dmax a b)) (Fin 0)"
    by (rule conjunct2 [THEN conjunct1])
  from g show "\<not> dgt (dexp (dsub (dmin a b) (dmax a b))) (Fin 1)"
    by (rule conjunct2 [THEN conjunct2])
qed

text \<open>
  Sentinel and finite operands, among them two operands a thousand apart in both orders:
  the exponential of the smaller minus the larger underflows to zero and the sum is the
  larger operand, whereas the exponential of the larger minus the smaller is infinite.
\<close>

theorem lnSum_cases_witness:
  "lnSum NaN NaN = Inr NaN \<and>
   lnSum NaN (Fin 2) = Inr (Fin 2) \<and>
   lnSum (Fin (- 3)) NaN = Inr (Fin (- 3)) \<and>
   lnSum (Fin 0) (Fin 0) = Inr (Fin (ln 2)) \<and>
   lnSum (Fin 0) (Fin (- 1000)) = Inr (Fin 0) \<and>
   lnSum (Fin (- 1000)) (Fin 0) = Inr (Fin 0) \<and>
   dexp (dsub (dmin (Fin 0) (Fin (- 1000))) (dmax (Fin 0) (Fin (- 1000)))) = Fin 0 \<and>
   dexp (dsub (dmax (Fin 0) (Fin (- 1000))) (dmin (Fin 0) (Fin (- 1000)))) = PInf \<and>
   lnSum PInf (Fin 1) = Inr PInf \<and>
   lnSum MInf (Fin 1) = Inr (Fin 1)"
proof -
  have "- 1000 \<le> ln (2 :: real)" "ln (2 :: real) \<le> 1000"
    using ln_2_less_1 ln_gt_zero [of "2 :: real"] by linarith+
  then have l: "to_double (ln 2) = Fin (ln 2)"
    by (rule to_double_small)
  have s: "to_double 0 = Fin 0" "to_double 1 = Fin 1"
    "to_double (- 1000) = Fin (- 1000)" "to_double 1000 = Fin 1000"
    by (simp_all add: to_double_small)
  have o: "overflow_bound \<le> exp (1000 :: real)"
    by (rule exp_overflows) simp
  have "underflow_bound < overflow_bound"
    using underflow_bound_lt overflow_bound_gt by (simp add: underflow_bound_def)
  with o have o': "\<not> exp (1000 :: real) \<le> underflow_bound"
    by linarith
  have u: "exp (- 1000 :: real) \<le> underflow_bound"
    by (rule exp_underflows) simp
  have "lnSum NaN NaN = Inr NaN"
    using lnSum_cases by (rule conjunct1)
  moreover have "lnSum NaN (Fin 2) = Inr (Fin 2)"
    using lnSum_cases [of "Fin 2"] by simp
  moreover have "lnSum (Fin (- 3)) NaN = Inr (Fin (- 3))"
    using lnSum_cases [of _ "Fin (- 3)"] by simp
  moreover have "lnSum (Fin 0) (Fin 0) = Inr (Fin (ln 2))"
    using lnSum_cases [of _ _ 0 0] by (simp add: uexp_0 l)
  moreover have "lnSum (Fin 0) (Fin (- 1000)) = Inr (Fin 0)"
    using lnSum_cases [of _ _ 0 "- 1000"] by (simp add: uexp_underflow s)
  moreover have "lnSum (Fin (- 1000)) (Fin 0) = Inr (Fin 0)"
    using lnSum_cases [of _ _ "- 1000" 0] by (simp add: uexp_underflow s)
  moreover have "dexp (dsub (dmin (Fin 0) (Fin (- 1000))) (dmax (Fin 0) (Fin (- 1000)))) = Fin 0"
    using u by (simp add: dmin_def dmax_def dsub_def s)
  moreover have "dexp (dsub (dmax (Fin 0) (Fin (- 1000))) (dmin (Fin 0) (Fin (- 1000)))) = PInf"
    using o o' by (simp add: dmin_def dmax_def dsub_def s)
  moreover have "lnSum PInf (Fin 1) = Inr PInf"
    using lnSum_cases [of "Fin 1" PInf] by (simp add: dmin_def dmax_def dsub_def s)
  moreover have "lnSum MInf (Fin 1) = Inr (Fin 1)"
    using lnSum_cases [of "Fin 1" MInf] by (simp add: dmin_def dmax_def dsub_def s)
  ultimately show ?thesis
    by (intro conjI)
qed

text \<open>
  Claim C3. \<open>eln\<close> returns the zero sentinel NaN at \<open>0\<close>, the natural logarithm at a
  positive argument, and raises \<open>NegativeLog\<close> at every negative argument; at \<open>0\<close> it does
  not raise. Plus infinity is positive and minus infinity is negative.
\<close>

theorem eln_cases:
  "eln (Fin 0) = Inr NaN \<and>
   (0 < p \<longrightarrow> eln (Fin p) = Inr (Fin (ln p))) \<and>
   (p < 0 \<longrightarrow> eln (Fin p) = Inl NegativeLog) \<and>
   eln PInf = Inr PInf \<and>
   eln MInf = Inl NegativeLog"
  by (simp add: eln_def)

theorem eln_cases_witness:
  "eln (Fin 0) = Inr NaN \<and> eln (Fin 1) = Inr (Fin 0) \<and> eln (Fin (-1)) = Inl NegativeLog"
  using eln_cases [of 1] eln_cases [of "-1"] by simp

text \<open>
  Claim C4. \<open>lnGreaterThan\<close> is the strict comparison in which the zero sentinel is the
  least element: it is false whenever the left operand is the sentinel (also against the
  sentinel itself), true for a left operand that is not the sentinel against the sentinel,
  and \<open>a > b\<close> when neither is the sentinel, also for the infinities.
\<close>

theorem lnGreaterThan_cases:
  "lnGreaterThan NaN NaN = False \<and>
   lnGreaterThan NaN (Fin b) = False \<and>
   lnGreaterThan (Fin a) NaN = True \<and>
   lnGreaterThan (Fin a) (Fin b) = (b < a) \<and>
   lnGreaterThan NaN y = False \<and>
   (\<not> isnan x \<longrightarrow> lnGreaterThan x NaN = True) \<and>
   (\<not> isnan x \<and> \<not> isnan y \<longrightarrow> lnGreaterThan x y = dgt x y)"
  by (simp add: lnGreaterThan_def)

theorem lnGreaterThan_cases_witness:
  "\<not> lnGreaterThan NaN NaN \<and> \<not> lnGreaterThan NaN (Fin 5) \<and> lnGreaterThan (Fin (-7)) NaN \<and>
   lnGreaterThan (Fin 2) (Fin 1) \<and> \<not> lnGreaterThan (Fin 1) (Fin 1) \<and>
   lnGreaterThan PInf NaN \<and> lnGreaterThan PInf (Fin 1) \<and> \<not> lnGreaterThan MInf (Fin 1)"
  using lnGreaterThan_cases [of 5 "-7"] lnGreaterThan_cases [of 1 2] lnGreaterThan_cases [of 1 1]
    lnGreaterThan_cases [of _ _ _ PInf] lnGreaterThan_cases [of _ _ "Fin 1" PInf]
    lnGreaterThan_cases [of _ _ "Fin 1" MInf]
  by simp

text \<open>
  Claim C5. Mapping a finite value \<open>x\<close> to linear space with \<open>eexp\<close> and back with \<open>eln\<close>
  returns \<open>x\<close> for every \<open>x\<close> from \<open>-700\<close> to \<open>700\<close>, over exact real arithmetic. It does
  not for every finite \<open>x\<close>: at or below \<open>-746\<close> the exponential underflows to zero and
  the round trip returns the zero sentinel, and from \<open>710\<close> on it overflows and the round
  trip returns plus infinity.
\<close>

theorem eln_eexp_roundtrip:
  "(- 700 \<le> x \<and> x \<le> 700 \<longrightarrow> eln (eexp (Fin x)) = Inr (Fin x)) \<and>
   (x \<le> - 746 \<longrightarrow> eln (eexp (Fin x)) = Inr NaN) \<and>
   (710 \<le> x \<longrightarrow> eln (eexp (Fin x)) = Inr PInf)"
proof (intro conjI impI)
  assume "- 700 \<le> x \<and> x \<le> 700"
  then have "underflow_bound < exp x \<and> exp x < overflow_bound"
    by (intro exp_in_range) simp_all
  then show "eln (eexp (Fin x)) = Inr (Fin x)"
    by (simp add: eln_def eexp_def)
next
  assume "x \<le> - 746"
  then have "exp x \<le> underflow_bound"
    by (rule exp_underflows)
  then show "eln (eexp (Fin x)) = Inr NaN"
    by (simp add: eln_def eexp_def)
next
  assume "710 \<le> x"
  then have o: "overflow_bound \<le> exp x"
    by (rule exp_overflows)
  have "underflow_bound < overflow_bound"
    using underflow_bound_lt overflow_bound_gt by (simp add: underflow_bound_def)
  with o have "\<not> exp x \<le> underflow_bound"
    by linarith
  with o show "eln (eexp (Fin x)) = Inr PInf"
    by (simp add: eln_def eexp_def)
qed

theorem eln_eexp_roundtrip_witness:
  "eln (eexp (Fin (- 2))) = Inr (Fin (- 2)) \<and>
   eln (eexp (Fin 700)) = Inr (Fin 700) \<and>
   eln (eexp (Fin (- 700))) = Inr (Fin (- 700)) \<and>
   eln (eexp (Fin (- 746))) = Inr NaN \<and>
   eln (eexp (Fin 710)) = Inr PInf"
  using eln_eexp_roundtrip [of "- 2"] eln_eexp_roundtrip [of 700]
    eln_eexp_roundtrip [of "- 700"] eln_eexp_roundtrip [of "- 746"] eln_eexp_roundtrip [of 710]
  by simp

text \<open>
  The round trip of \<open>-1000\<close> is the zero sentinel and the round trip of \<open>1000\<close> is plus
  infinity.
\<close>

theorem eln_eexp_out_of_range:
  "eln (eexp (Fin (- 1000))) = Inr NaN \<and> eln (eexp (Fin 1000)) = Inr PInf"
proof -
  have u: "exp (- 1000 :: real) \<le> underflow_bound"
    by (rule exp_underflows) simp
  have o: "overflow_bound \<le> exp (1000 :: real)"
    by (rule exp_overflows) simp
  have "underflow_bound < overflow_bound"
    using underflow_bound_lt overflow_bound_gt by (simp add: underflow_bound_def)
  with o have "\<not> exp (1000 :: real) \<le> underflow_bound"
    by linarith
  with u o show ?thesis
    by (simp add: eln_def eexp_def)
qed

section \<open>Properties of the training run\<close>

text \<open>
  Claim C1. For a mapped reference sequence of length \<open>L > 6\<close> whose 5-mers are all in the
  pore model, the construction succeeds and the graph holds exactly the six states
  (SS, D, I, M1, M2, SE) of each position \<open>i\<close> in \<open>[0, L - 5)\<close>, under pairwise different
  names; its transitions are exactly the ten internal transitions of every position, the
  five external transitions from every position but the last to the next one, the two
  transitions of weight one half from the start state to SS and D of the first module,
  and the three transitions from D, I and SE of the last module to the end state with the
  weights \<open>externalD2D + externalD2SS\<close>, \<open>externalI2SS\<close> and
  \<open>externalSE2SS + externalSE2D\<close>.
\<close>

theorem buildHMM_graph:
  fixes model rd refSeqMapped p
  defines "S \<equiv> module_state model rd refSeqMapped"
  assumes "6 < length refSeqMapped"
    and "\<forall>i<length refSeqMapped - 5. substr refSeqMapped i 5 \<in> dom model"
  shows "\<exists>hmm. buildHMM p model rd refSeqMapped = Inr hmm \<and>
           hmm_states hmm = concat (map (module_states S) [0..<length refSeqMapped - 5]) \<and>
           length (hmm_states hmm) = 6 * (length refSeqMapped - 5) \<and>
           distinct (map name (hmm_states hmm)) \<and>
           hmm_transitions hmm =
             concat (map (internal_transitions p S) [0..<length refSeqMapped - 5]) @
             concat (map (external_transitions p S) [0..<length refSeqMapped - 6]) @
             start_transitions S @ end_transitions p S (length refSeqMapped - 6)"
proof -
  have "6 \<le> length refSeqMapped"
    using assms(2) by simp
  from buildHMM_ok [OF this assms(3), of p rd]
  show ?thesis
    unfolding S_def
    by (simp add: graph_states_def [symmetric] length_graph_states distinct_graph_names)
qed

theorem buildHMM_graph_witness:
  "\<exists>hmm. buildHMM sample_pore sample_model sample_read ''AAAAAAA'' = Inr hmm \<and>
     length (hmm_states hmm) = 12 \<and> length (hmm_transitions hmm) = 30"
proof -
  have len: "6 < length ''AAAAAAA''"
    by simp
  from buildHMM_graph [OF len sample_kmers, of sample_pore sample_read]
  obtain hmm where
    h: "buildHMM sample_pore sample_model sample_read ''AAAAAAA'' = Inr hmm"
    and s: "length (hmm_states hmm) = 6 * (length ''AAAAAAA'' - 5)"
    and t: "hmm_transitions hmm =
       concat (map (internal_transitions sample_pore
         (module_state sample_model sample_read ''AAAAAAA'')) [0..<length ''AAAAAAA'' - 5]) @
       concat (map (external_transitions sample_pore
         (module_state sample_model sample_read ''AAAAAAA'')) [0..<length ''AAAAAAA'' - 6]) @
       start_transitions (module_state sample_model sample_read ''AAAAAAA'') @
       end_transitions sample_pore (module_state sample_model sample_read ''AAAAAAA'')
         (length ''AAAAAAA'' - 6)"
    by (elim exE conjE)
  have "length (hmm_states hmm) = 12"
    using s by simp
  moreover have "length (hmm_transitions hmm) = 30"
    unfolding t
    by (simp add: upt_rec internal_transitions_def external_transitions_def
        start_transitions_def end_transitions_def)
  ultimately show ?thesis
    using h by (intro exI conjI)
qed

text \<open>
  Claim C6. When the fit of every pooled position either raises \<open>NegativeLog\<close> or returns
  its six parameters, the loop over the pool runs to its end: a position whose fit raises
  \<open>NegativeLog\<close> adds nothing to the output file, not even a part of a row, a position
  whose fit succeeds adds exactly its one record, and the rows appear in the order of the
  positions. So the number of rows written is the number of positions whose fit succeeds,
  and a run whose reads were all aligned ends with an output file that holds the header
  row and these records.
\<close>

theorem fitPositions_rows:
  "((\<forall>entry \<in> set pile. fit_settles env (FiveMer_model io) reference entry) \<longrightarrow>
    (\<exists>io'. fitPositions env reference pile io = Inr io' \<and>
       outFile io' = outFile io @ concat (map (rows_of env (FiveMer_model io) reference) pile) \<and>
       count_list (outFile io') Endl =
         count_list (outFile io) Endl +
         length (filter (fit_succeeds env (FiveMer_model io) reference) pile))) \<and>
   (alignReads env trainArgs model reference reads \<lparr>eventPileup = [], prog = 0\<rparr> = Inr st \<and>
    (\<forall>entry \<in> set (eventPileup st). fit_settles env model reference entry) \<longrightarrow>
    (\<exists>io'. train_main env trainArgs model reference reads = Inr io' \<and>
       outFile io' = header @ concat (map (rows_of env model reference) (eventPileup st))))"
proof (intro conjI impI)
  assume settled: "\<forall>entry \<in> set pile. fit_settles env (FiveMer_model io) reference entry"
  have "\<forall>k. lookup_default (FiveMer_model io) k = lookup_default (FiveMer_model io) k"
    by simp
  from fitPositions_ok [OF this settled]
  obtain io' where run: "fitPositions env reference pile io = Inr io'"
    and out: "outFile io' =
      outFile io @ concat (map (rows_of env (FiveMer_model io) reference) pile)"
    by (elim exE conjE)
  have "count_list (outFile io') Endl =
      count_list (outFile io) Endl +
      length (filter (fit_succeeds env (FiveMer_model io) reference) pile)"
    unfolding out by (simp add: count_rows)
  with run out show "\<exists>io'. fitPositions env reference pile io = Inr io' \<and>
       outFile io' = outFile io @ concat (map (rows_of env (FiveMer_model io) reference) pile) \<and>
       count_list (outFile io') Endl =
         count_list (outFile io) Endl +
         length (filter (fit_succeeds env (FiveMer_model io) reference) pile)"
    by (intro exI conjI)
next
  let ?io = "\<lparr>outFile = header, cout = [], FiveMer_model = model\<rparr>"
  assume "alignReads env trainArgs model reference reads \<lparr>eventPileup = [], prog = 0\<rparr> = Inr st \<and>
    (\<forall>entry \<in> set (eventPileup st). fit_settles env model reference entry)"
  then have aligned:
      "alignReads env trainArgs model reference reads \<lparr>eventPileup = [], prog = 0\<rparr> = Inr st"
    and settled: "\<forall>entry \<in> set (eventPileup st). fit_settles env model reference entry"
    by (rule conjunct1, rule conjunct2)
  have "\<forall>k. lookup_default (FiveMer_model ?io) k = lookup_default model k"
    by simp
  from fitPositions_ok [OF this settled]
  obtain io' where run: "fitPositions env reference (eventPileup st) ?io = Inr io'"
    and out: "outFile io' =
      outFile ?io @ concat (map (rows_of env model reference) (eventPileup st))"
    by (elim exE conjE)
  have main: "train_main env trainArgs model reference reads = Inr io'"
    by (simp add: train_main_def Let_def aligned run)
  have out': "outFile io' = header @ concat (map (rows_of env model reference) (eventPileup st))"
    using out by simp
  show "\<exists>io'. train_main env trainArgs model reference reads = Inr io' \<and>
       outFile io' = header @ concat (map (rows_of env model reference) (eventPileup st))"
    by (rule exI [of _ io']) (rule conjI [OF main out'])
qed

text \<open>
  The sample pool has an empty entry at position 0, whose fit raises \<open>NegativeLog\<close>, and an
  entry at position 1, whose fit succeeds: the output is the header and one record. The
  sample run pools one event at position 10 and writes the header and the record of that
  position.
\<close>

theorem fitPositions_rows_witness:
  "(\<exists>io'. fitPositions (sample_env (Fin 0)) sample_reference [(0, []), (1, [Fin 80])]
            \<lparr>outFile = header, cout = [], FiveMer_model = sample_model\<rparr> = Inr io' \<and>
     outFile io' =
       header @
       [Text ''AAAAA'', tab, Num (Fin 80), tab, Num (Fin 2), tab, Num (Fin (1 / 2)), tab,
        Num (Fin 80), tab, Num (Fin 2), tab, Num (Fin (1 / 2)), tab, Num (Fin 81), tab,
        Num (Fin 2), Endl]) \<and>
   (\<exists>io'. train_main (sample_env (Fin 0)) (sample_args 5 20) sample_model sample_reference
            [sample_read] = Inr io' \<and>
     outFile io' =
       header @
       [Text ''AAAAA'', tab, Num (Fin 80), tab, Num (Fin 2), tab, Num (Fin (1 / 2)), tab,
        Num (Fin 80), tab, Num (Fin 2), tab, Num (Fin (1 / 2)), tab, Num (Fin 81), tab,
        Num (Fin 2), Endl])"
proof -
  let ?io = "\<lparr>outFile = header, cout = [], FiveMer_model = sample_model\<rparr>"
  let ?row = "[Text ''AAAAA'', tab, Num (Fin 80), tab, Num (Fin 2), tab, Num (Fin (1 / 2)), tab,
        Num (Fin 80), tab, Num (Fin 2), tab, Num (Fin (1 / 2)), tab, Num (Fin 81), tab,
        Num (Fin 2), Endl]"
  have k: "substr sample_reference 0 5 = ''AAAAA''" "substr sample_reference (Suc 0) 5 = ''AAAAA''"
    "substr sample_reference 10 5 = ''AAAAA''"
    by (simp_all add: substr_def sample_reference_def)
  have f: "fit (sample_env (Fin 0)) sample_model ''AAAAA'' [] = Inl NegativeLog"
    "fit (sample_env (Fin 0)) sample_model ''AAAAA'' [Fin 80] =
       Inr [Fin (1 / 2), Fin 80, Fin 2, Fin (1 / 2), Fin 81, Fin 2]"
    by (simp_all add: fit_def Let_def sample_env_def lookup_default_def sample_model_def
        to_double_small)
  have l: "lookup_default sample_model ''AAAAA'' = (Fin 80, Fin 2)"
    by (simp add: lookup_default_def sample_model_def)
  have rows: "rows_of (sample_env (Fin 0)) sample_model sample_reference (0, []) = []"
    "rows_of (sample_env (Fin 0)) sample_model sample_reference (1, [Fin 80]) = ?row"
    "rows_of (sample_env (Fin 0)) sample_model sample_reference (10, [Fin 80]) = ?row"
    by (simp_all add: rows_of_def Let_def k f record_of_def l)
  have settled: "\<forall>entry \<in> set [(0, []), (1, [Fin 80])].
      fit_settles (sample_env (Fin 0)) (FiveMer_model ?io) sample_reference entry"
    by (simp add: fit_settles_def k f) (simp add: sample_reference_def)
  have aligned: "alignReads (sample_env (Fin 0)) (sample_args 5 20) sample_model sample_reference
      [sample_read] \<lparr>eventPileup = [], prog = 0\<rparr> = Inr \<lparr>eventPileup = [(10, [Fin 80])], prog = 1\<rparr> \<and>
    (\<forall>entry \<in> set (eventPileup \<lparr>eventPileup = [(10, [Fin 80])], prog = 1\<rparr>).
       fit_settles (sample_env (Fin 0)) sample_model sample_reference entry)"
    by (simp add: sample_processRead fit_settles_def k f) (simp add: sample_reference_def)
  from fitPositions_rows [THEN conjunct1, THEN mp, OF settled]
  obtain io1 where
    run1: "fitPositions (sample_env (Fin 0)) sample_reference [(0, []), (1, [Fin 80])] ?io = Inr io1"
    and out1: "outFile io1 =
      outFile ?io @ concat (map (rows_of (sample_env (Fin 0)) (FiveMer_model ?io) sample_reference)
        [(0, []), (1, [Fin 80])])"
    by (elim exE conjE)
  from fitPositions_rows [THEN conjunct2, THEN mp, OF aligned]
  obtain io2 where
    run2: "train_main (sample_env (Fin 0)) (sample_args 5 20) sample_model sample_reference
      [sample_read] = Inr io2"
    and out2: "outFile io2 =
      header @ concat (map (rows_of (sample_env (Fin 0)) sample_model sample_reference)
        (eventPileup \<lparr>eventPileup = [(10, [Fin 80])], prog = 1\<rparr>))"
    by (elim exE conjE)
  have o1: "outFile io1 = header @ ?row"
    unfolding out1 by (simp add: rows)
  have o2: "outFile io2 = header @ ?row"
    unfolding out2 by (simp add: rows)
  show ?thesis
    by (intro conjI exI [of _ io1] exI [of _ io2]) (rule run1, rule o1, rule run2, rule o2)
qed

text \<open>The nine fields of the record of a position, in the order in which they are written.\<close>

lemma record_fields:
  "fields (record_of model fiveMer fitParameters) =
     [Text fiveMer, Num (fst (lookup_default model fiveMer)),
      Num (snd (lookup_default model fiveMer)),
      Num (fitParameters ! 0), Num (fitParameters ! 1), Num (fitParameters ! 2),
      Num (fitParameters ! 3), Num (fitParameters ! 4), Num (fitParameters ! 5)]"
  by (simp add: fields_def record_of_def tab_def)

text \<open>
  Claim C7. The header row written at line 114 has nine columns, but it does not name
  them in the order of the records: its sixth label is \<open>stdv_2\<close> and its eighth label is
  \<open>mean_1\<close>, so that two labels occur twice, while the sixth and the eighth field of a
  record are the third and the fifth fit parameter (the standard deviation of the first
  component and the mean of the second).
\<close>

theorem header_columns:
  "fields header =
     [Text ''5mer'', Text ''ONT_mean'', Text ''ONT_stdv'', Text ''pi_1'', Text ''mean_1'',
      Text ''stdv_2'', Text ''pi_2'', Text ''mean_1'', Text ''stdv_2''] \<and>
   \<not> distinct (fields header) \<and>
   fields header ! 5 = fields header ! 8 \<and>
   fields header ! 4 = fields header ! 7"
  by (simp add: fields_def header_def tab_def)

text \<open>
  Claim C8. A read whose normalised quality score has a magnitude above one is discarded
  at once: the body of the loop returns the pool and the progress counter unchanged
  whatever the reference, the pore model and the decoder are, so no graph is built and
  no path is decoded for it, and the loop goes on with the remaining reads as if the read
  were not there.
\<close>

theorem low_quality_read_is_discarded:
  assumes "dgt (fabs (qualityScore (normaliseEvents env currentRead))) (Fin 1)"
  shows "processRead env trainArgs model reference currentRead st = Inr st \<and>
         alignReads env trainArgs model reference (currentRead # rest) st =
           alignReads env trainArgs model reference rest st"
  using assms by (simp add: processRead_def Let_def)

text \<open>
  With quality score 2 the sample read is discarded, also on an empty reference and an
  empty pore model, on which the same read with quality score 0 fails when its mapped
  sequence is cut.
\<close>

theorem low_quality_read_is_discarded_witness:
  "dgt (fabs (qualityScore (normaliseEvents (sample_env (Fin 2)) sample_read))) (Fin 1) \<and>
   processRead (sample_env (Fin 2)) (sample_args 0 100) Map.empty [] sample_read
     \<lparr>eventPileup = [], prog = 0\<rparr> = Inr \<lparr>eventPileup = [], prog = 0\<rparr> \<and>
   processRead (sample_env (Fin 0)) (sample_args 0 100) Map.empty [] sample_read
     \<lparr>eventPileup = [], prog = 0\<rparr> = Inl OutOfRange"
proof -
  have q: "dgt (fabs (qualityScore (normaliseEvents (sample_env (Fin 2)) sample_read))) (Fin 1)"
    by (simp add: sample_env_def)
  have "processRead (sample_env (Fin 0)) (sample_args 0 100) Map.empty [] sample_read
     \<lparr>eventPileup = [], prog = 0\<rparr> = Inl OutOfRange"
    by (simp add: processRead_def Let_def sample_env_def sample_read_def substr_from_def)
  with q low_quality_read_is_discarded [OF q, of "sample_args 0 100" Map.empty "[]"
      "\<lparr>eventPileup = [], prog = 0\<rparr>" "[]"]
  show ?thesis by simp
qed

text \<open>
  Claim C9. The pooling loop reads \<^verbatim>\<open>emittingStatePath[i]\<close> for every observation index
  \<open>i\<close> below the number of normalised events, and nothing compares that number with the
  length of the filtered path. The loop can only run to its end when the path has at least
  as many emitting states as there are observations; with a shorter path, and names that
  split into at least one piece, it reads the path outside its bounds at the index that
  is the path's length. With a path that is long enough and such names it runs to its
  end. A read that passes the quality filter is processed to the end only if the decoded
  path, filtered to its emitting states, is at least as long as the events of the read.
\<close>

theorem pooling_needs_emitting_states:
  "(poolEvents env trainArgs path events pile = Inr pile' \<longrightarrow> length events \<le> length path) \<and>
   (length path < length events \<and>
      (\<forall>i<length path. split env (name (path ! i)) CHR ''_'' \<noteq> []) \<longrightarrow>
    poolEvents env trainArgs path events pile = Inl (OutOfBounds ''emittingStatePath'')) \<and>
   (length events \<le> length path \<and>
      (\<forall>i<length events. split env (name (path ! i)) CHR ''_'' \<noteq> []) \<longrightarrow>
    (\<exists>pile''. poolEvents env trainArgs path events pile = Inr pile'')) \<and>
   (\<not> dgt (fabs (qualityScore (normaliseEvents env currentRead))) (Fin 1) \<and>
      processRead env trainArgs model reference currentRead st = Inr st' \<longrightarrow>
    (\<exists>refSeqMapped hmm viterbiData.
       buildHMM (pore env) model currentRead refSeqMapped = Inr hmm \<and>
       viterbi env hmm (normalisedEvents (normaliseEvents env currentRead)) = Inr viterbiData \<and>
       length (normalisedEvents (normaliseEvents env currentRead)) \<le>
         length (filter emitting (snd viterbiData))))"
proof (intro conjI impI)
  assume "poolEvents env trainArgs path events pile = Inr pile'"
  then show "length events \<le> length path"
    by (rule poolEvents_needs_path)
next
  assume "length path < length events \<and>
    (\<forall>i<length path. split env (name (path ! i)) CHR ''_'' \<noteq> [])"
  then show "poolEvents env trainArgs path events pile = Inl (OutOfBounds ''emittingStatePath'')"
    using poolEvents_short_path [of path events env trainArgs pile] by (elim conjE)
next
  assume "length events \<le> length path \<and>
    (\<forall>i<length events. split env (name (path ! i)) CHR ''_'' \<noteq> [])"
  then show "\<exists>pile''. poolEvents env trainArgs path events pile = Inr pile''"
    using poolEvents_long_path [of events path env trainArgs pile] by (elim conjE)
next
  let ?events = "normalisedEvents (normaliseEvents env currentRead)"
  assume a: "\<not> dgt (fabs (qualityScore (normaliseEvents env currentRead))) (Fin 1) \<and>
    processRead env trainArgs model reference currentRead st = Inr st'"
  then obtain refSeqMapped hmm viterbiData pile'' where
    h: "buildHMM (pore env) model currentRead refSeqMapped = Inr hmm"
    and v: "viterbi env hmm ?events = Inr viterbiData"
    and p: "poolEvents env trainArgs (filter emitting (snd viterbiData)) ?events (eventPileup st) =
      Inr pile''"
    by (auto simp: processRead_def Let_def split: sum.splits)
  from p have "length ?events \<le> length (filter emitting (snd viterbiData))"
    by (rule poolEvents_needs_path)
  with h v show "\<exists>refSeqMapped hmm viterbiData.
       buildHMM (pore env) model currentRead refSeqMapped = Inr hmm \<and>
       viterbi env hmm ?events = Inr viterbiData \<and>
       length ?events \<le> length (filter emitting (snd viterbiData))"
    by blast
qed

text \<open>
  Two observations against a path of one emitting state: the loop pools the first
  observation and then reads the path at index 1.
\<close>

theorem pooling_needs_emitting_states_witness:
  "poolEvents (sample_env (Fin 0)) (sample_args 0 100)
     [mkState sd ''10_M1'' ''AAAAA'' ''10_match'' (Fin 1)] [Fin 80, Fin 81] [] =
   Inl (OutOfBounds ''emittingStatePath'') \<and>
   (\<exists>pile. poolEvents (sample_env (Fin 0)) (sample_args 0 100)
      [mkState sd ''10_M1'' ''AAAAA'' ''10_match'' (Fin 1)] [Fin 80] [] = Inr pile)"
proof -
  let ?path = "[mkState sd ''10_M1'' ''AAAAA'' ''10_match'' (Fin 1)]"
  have s: "\<forall>i<length ?path. split (sample_env (Fin 0)) (name (?path ! i)) CHR ''_'' \<noteq> []"
    by (simp add: sample_env_def mkState_def)
  have short: "length ?path < length [Fin 80, Fin 81] \<and>
      (\<forall>i<length ?path. split (sample_env (Fin 0)) (name (?path ! i)) CHR ''_'' \<noteq> [])"
    using s by simp
  have long: "length [Fin 80] \<le> length ?path \<and>
      (\<forall>i<length [Fin 80]. split (sample_env (Fin 0)) (name (?path ! i)) CHR ''_'' \<noteq> [])"
    using s by simp
  note inst = pooling_needs_emitting_states [of "sample_env (Fin 0)" "sample_args 0 100" ?path]
  have "poolEvents (sample_env (Fin 0)) (sample_args 0 100) ?path [Fin 80, Fin 81] [] =
      Inl (OutOfBounds ''emittingStatePath'')"
    by (rule inst [of "[Fin 80, Fin 81]" "[]", THEN conjunct2, THEN conjunct1, THEN mp, OF short])
  moreover have "\<exists>pile. poolEvents (sample_env (Fin 0)) (sample_args 0 100) ?path [Fin 80] [] =
      Inr pile"
    by (rule inst [of "[Fin 80]" "[]", THEN conjunct2, THEN conjunct2, THEN conjunct1, THEN mp,
        OF long])
  ultimately show ?thesis
    by (rule conjI)
qed

text \<open>
  The bounds check of line 268 read on signed numbers. Unless the lower bound is
  non-negative while the upper bound is negative, every key of the event pool lies in the
  half-open interval from \<^verbatim>\<open>boundLower\<close> to \<^verbatim>\<open>boundUpper\<close>: every pass of the loop over
  the reads keeps this, the pool after the last read has it, and the trained output is
  written from that pool.
\<close>

theorem pool_keys_within_bounds:
  assumes "sint (boundLower trainArgs) < 0 \<or> 0 \<le> sint (boundUpper trainArgs)"
  shows "(within_bounds trainArgs (eventPileup st) \<and>
            processRead env trainArgs model reference currentRead st = Inr st' \<longrightarrow>
          within_bounds trainArgs (eventPileup st')) \<and>
         (alignReads env trainArgs model reference reads \<lparr>eventPileup = [], prog = 0\<rparr> = Inr st''
            \<longrightarrow> within_bounds trainArgs (eventPileup st'')) \<and>
         (train_main env trainArgs model reference reads = Inr io \<longrightarrow>
          (\<exists>final :: training. within_bounds trainArgs (eventPileup final) \<and>
             fitPositions env reference (eventPileup final)
               \<lparr>outFile = header, cout = [], FiveMer_model = model\<rparr> = Inr io))"
proof (intro conjI impI)
  assume "within_bounds trainArgs (eventPileup st) \<and>
    processRead env trainArgs model reference currentRead st = Inr st'"
  then show "within_bounds trainArgs (eventPileup st')"
    using processRead_within_bounds [OF assms] by blast
next
  have init: "within_bounds trainArgs (eventPileup \<lparr>eventPileup = [], prog = 0\<rparr>)"
    by (simp add: within_bounds_def)
  {
    fix final
    assume "alignReads env trainArgs model reference reads \<lparr>eventPileup = [], prog = 0\<rparr> =
      Inr final"
    with assms init have "within_bounds trainArgs (eventPileup final)"
      by (rule alignReads_within_bounds)
  }
  note pool = this
  {
    assume "alignReads env trainArgs model reference reads \<lparr>eventPileup = [], prog = 0\<rparr> =
      Inr st''"
    then show "within_bounds trainArgs (eventPileup st'')"
      by (rule pool)
  next
    assume "train_main env trainArgs model reference reads = Inr io"
    then obtain final where
      a: "alignReads env trainArgs model reference reads \<lparr>eventPileup = [], prog = 0\<rparr> =
        Inr final"
      and f: "fitPositions env reference (eventPileup final)
        \<lparr>outFile = header, cout = [], FiveMer_model = model\<rparr> = Inr io"
      by (auto simp: train_main_def Let_def split: sum.splits)
    from a have w: "within_bounds trainArgs (eventPileup final)"
      by (rule pool)
    show "\<exists>final :: training. within_bounds trainArgs (eventPileup final) \<and>
       fitPositions env reference (eventPileup final)
         \<lparr>outFile = header, cout = [], FiveMer_model = model\<rparr> = Inr io"
      by (rule exI [of _ final]) (rule conjI [OF w f])
  }
qed

text \<open>With the bounds 5 and 20 the sample read is pooled at position 10, inside the bounds.\<close>

theorem pool_keys_within_bounds_witness:
  "(sint (boundLower (sample_args 5 20)) < 0 \<or> 0 \<le> sint (boundUpper (sample_args 5 20))) \<and>
   alignReads (sample_env (Fin 0)) (sample_args 5 20) sample_model sample_reference [sample_read]
     \<lparr>eventPileup = [], prog = 0\<rparr> = Inr \<lparr>eventPileup = [(10, [Fin 80])], prog = 1\<rparr> \<and>
   within_bounds (sample_args 5 20) [(10, [Fin 80])]"
proof -
  have b: "sint (boundLower (sample_args 5 20)) < 0 \<or> 0 \<le> sint (boundUpper (sample_args 5 20))"
    by (simp add: sample_args_def)
  have a: "alignReads (sample_env (Fin 0)) (sample_args 5 20) sample_model sample_reference
     [sample_read] \<lparr>eventPileup = [], prog = 0\<rparr> = Inr \<lparr>eventPileup = [(10, [Fin 80])], prog = 1\<rparr>"
    by (simp add: sample_processRead)
  have "within_bounds (sample_args 5 20)
      (eventPileup \<lparr>eventPileup = [(10, [Fin 80])], prog = 1\<rparr>)"
    by (rule pool_keys_within_bounds [OF b, THEN conjunct2, THEN conjunct1, THEN mp, OF a])
  then have "within_bounds (sample_args 5 20) [(10, [Fin 80])]"
    by simp
  with b a show ?thesis
    by (intro conjI)
qed

text \<open>
  Claim C10. Every key of the event pool should lie in the half-open interval from
  \<^verbatim>\<open>boundLower\<close> to \<^verbatim>\<open>boundUpper\<close>, so that an event aligned to a position outside
  the bounds is never pooled. The test of line 268 compares the \<^verbatim>\<open>unsigned int\<close> position
  with the two \<^verbatim>\<open>int\<close> bounds, and C converts the bounds to \<^verbatim>\<open>unsigned int\<close> for that:
  a negative upper bound is read as a number above every position. For the bounds 5 and
  -1 the sample read is pooled at position 10, which is not between 5 and -1.
\<close>

theorem pooled_outside_signed_bounds:
  "alignReads (sample_env (Fin 0)) (sample_args 5 (- 1)) sample_model sample_reference
     [sample_read] \<lparr>eventPileup = [], prog = 0\<rparr> =
     Inr \<lparr>eventPileup = [(10, [Fin 80])], prog = 1\<rparr> \<and>
   sint (boundLower (sample_args 5 (- 1))) = 5 \<and>
   sint (boundUpper (sample_args 5 (- 1))) = - 1 \<and>
   \<not> (sint (boundLower (sample_args 5 (- 1))) \<le> 10 \<and>
      (10 :: int) < sint (boundUpper (sample_args 5 (- 1))))"
  by (simp add: sample_processRead) (simp add: sample_args_def)

end
